theory Spec2Isabelle
  imports Main
begin

section \<open>Data model\<close>

text \<open>
  Go's \<open>[]byte\<close> and \<open>string\<close> are byte sequences: both are \<open>char list\<close> here.
  A path on disk is the list of its components, so \<open>filepath.Join a b\<close> is \<open>a @ b\<close>,
  \<open>filepath.Dir\<close> is \<open>butlast\<close> and \<open>filepath.Base\<close> is \<open>last\<close>.
\<close>

type_synonym bytes = string
type_synonym path = "string list"

text \<open>
  Go errors as values. \<open>Wrapped msg e\<close> is \<open>fmt.Errorf(msg + "%w", e)\<close>.
\<close>

datatype error =
    ErrNotExist
  | ErrInvalid
  | ENOTDIR
  | EISDIR
  | EACCES
  | EIO
  | Failure string
  | Wrapped string error

text \<open>What is stored at a path of the disk: a directory or a regular file with its bytes.\<close>

datatype node = Dir | File bytes

type_synonym fsys = "path \<rightharpoonup> node"

text \<open>
  An open \<open>fs.File\<close>: a regular file delivers its bytes to \<open>io.ReadAll\<close>, a directory
  handle makes every read fail.
\<close>

datatype fsfile = RegularFile bytes | DirHandle

text \<open>
  The fields of \<open>manager\<close> that the methods under study use. \<open>embedded\<close> is the bundled
  \<open>fs.FS\<close> (its \<open>Open\<close> method), fixed for the life of the process; \<open>folder\<close> is the
  \<open>fs.FS\<close> rooted at a directory of the disk, so what its \<open>Open\<close> returns depends on
  the disk at the time of the call.
\<close>

record manager =
  embedded :: "string \<Rightarrow> error + fsfile"
  folder :: "fsys \<Rightarrow> string \<Rightarrow> error + fsfile"
  servingPath :: string
  inputFolder :: path
  outputFolder :: path

section \<open>AssetFilesystem: \<open>Open\<close> and \<open>ReadFile\<close>\<close>

text \<open>
  \<open>filepath.Ext\<close>: scan from the last byte towards the first, stop at a path separator,
  return the suffix that starts at the first dot met. The accumulator holds the bytes
  already passed, \<open>path[i+1:]\<close>.
\<close>

fun ext_scan :: "string \<Rightarrow> string \<Rightarrow> string" where
  "ext_scan [] acc = []"
| "ext_scan (c # cs) acc =
     (if c = CHR ''/'' then []
      else if c = CHR ''.'' then c # acc
      else ext_scan cs (c # acc))"

definition Ext :: "string \<Rightarrow> string" where
  "Ext name = ext_scan (rev name) []"

text \<open>
  \<open>manager.Open\<close>. \<open>env\<close> is what \<open>os.Getenv("GO_ENV")\<close> returns at the time of the call
  and \<open>disk\<close> is the disk at that time.
\<close>

definition Open :: "manager \<Rightarrow> string \<Rightarrow> fsys \<Rightarrow> string \<Rightarrow> error + fsfile" where
  "Open m env disk name =
     (let ext = Ext name in
      if ext = ''.go'' then Inl ErrNotExist
      else
        let fn = (if env = ''development'' then folder m disk else embedded m)
        in fn name)"

text \<open>\<open>io.ReadAll\<close> on an open file; the bytes read before an error are dropped.\<close>

fun ReadAll :: "fsfile \<Rightarrow> error + bytes" where
  "ReadAll (RegularFile bs) = Inr bs"
| "ReadAll DirHandle = Inl ErrInvalid"

text \<open>
  \<open>manager.ReadFile\<close>. The source reads neither the environment nor the disk here: it
  opens the name in the bundled file system and reads the file to its end.
\<close>

definition ReadFile :: "manager \<Rightarrow> string \<Rightarrow> error + bytes" where
  "ReadFile m name =
     (case embedded m name of
        Inl err \<Rightarrow> Inl err
      | Inr x \<Rightarrow> ReadAll x)"

section \<open>TreeSynchronizer: the disk\<close>

text \<open>
  The input tree as \<open>filepath.Walk\<close> and \<open>os.Open\<close> find it. A regular file either
  cannot be opened, or delivers all its bytes, or delivers some bytes and then a read
  error. A directory lists its entries in the order of \<open>readDirNames\<close> (sorted by
  name). \<open>SErr\<close> is an entry whose \<open>Lstat\<close> fails, or a directory that cannot be
  listed. The input folder and the output folder are taken to be disjoint, so that
  writing the output does not change the input tree.
\<close>

datatype srcfile = Unopenable error | Readable bytes | ReadFails bytes error

datatype snode = SFile srcfile | SDir "(string \<times> snode) list" | SErr error

fun IsDir :: "snode \<Rightarrow> bool" where
  "IsDir (SDir _) = True"
| "IsDir _ = False"

text \<open>\<open>os.Stat\<close> on the output disk; the root directory always exists.\<close>

definition stat :: "fsys \<Rightarrow> path \<Rightarrow> node option" where
  "stat d p = (if p = [] then Some Dir else d p)"

text \<open>
  \<open>os.MkdirAll\<close>: nothing to do when the path is a directory, \<open>ENOTDIR\<close> when it is
  a file, otherwise make the parent and then the directory itself.
\<close>

function MkdirAll :: "path \<Rightarrow> fsys \<Rightarrow> error + fsys" where
  "MkdirAll p d =
     (if p = [] then Inr d
      else case d p of
          Some Dir \<Rightarrow> Inr d
        | Some (File _) \<Rightarrow> Inl ENOTDIR
        | None \<Rightarrow>
            (case MkdirAll (butlast p) d of
               Inl e \<Rightarrow> Inl e
             | Inr d' \<Rightarrow> Inr (d'(p \<mapsto> Dir))))"
  by pat_completeness auto
termination
  by (relation "measure (\<lambda>(p, d). length p)") auto

declare MkdirAll.simps [simp del]

text \<open>\<open>os.Open\<close> on an entry of the input tree.\<close>

fun os_Open :: "snode \<Rightarrow> error + srcfile" where
  "os_Open (SFile (Unopenable e)) = Inl e"
| "os_Open (SFile f) = Inr f"
| "os_Open (SDir _) = Inr (ReadFails [] EISDIR)"
| "os_Open (SErr e) = Inl e"

text \<open>
  \<open>os.Create\<close>: fails on a directory and where the parent is not a directory,
  otherwise leaves an empty regular file at the path.
\<close>

definition os_Create :: "path \<Rightarrow> fsys \<Rightarrow> error + fsys" where
  "os_Create p d =
     (case stat d p of
        Some Dir \<Rightarrow> Inl EISDIR
      | _ \<Rightarrow>
          (case stat d (butlast p) of
             Some Dir \<Rightarrow> Inr (d(p \<mapsto> File []))
           | Some (File _) \<Rightarrow> Inl ENOTDIR
           | None \<Rightarrow> Inl ErrNotExist))"

text \<open>
  \<open>io.Copy(destFile, srcFile)\<close>: the bytes read reach the destination file, also
  those read before a read error.
\<close>

fun io_Copy :: "path \<Rightarrow> srcfile \<Rightarrow> fsys \<Rightarrow> error option \<times> fsys" where
  "io_Copy p (Readable bs) d = (None, d(p \<mapsto> File bs))"
| "io_Copy p (ReadFails bs e) d = (Some e, d(p \<mapsto> File bs))"
| "io_Copy p (Unopenable e) d = (Some e, d)"

text \<open>
  \<open>filepath.Rel\<close>, \<open>filepath.Dir\<close>, \<open>filepath.Base\<close> and \<open>filepath.Join\<close> with one
  more element, on component lists. The empty list is the path \<open>"."\<close>.
\<close>

fun Rel :: "path \<Rightarrow> path \<Rightarrow> error + path" where
  "Rel (b # bs) (t # ts) =
     (if b = t then Rel bs ts
      else if b = ''..'' then Inl (Failure ''Rel: can't make relative'')
      else Inr (replicate (length (b # bs)) ''..'' @ (t # ts)))"
| "Rel [] ts = Inr ts"
| "Rel (b # bs) [] =
     (if b = ''..'' then Inl (Failure ''Rel: can't make relative'')
      else Inr (replicate (length (b # bs)) ''..''))"

definition Dir_of :: "path \<Rightarrow> path" where
  "Dir_of p = butlast p"

definition Base :: "path \<Rightarrow> string" where
  "Base p = (if p = [] then ''.'' else last p)"

definition Join1 :: "path \<Rightarrow> string \<Rightarrow> path" where
  "Join1 p b = (if b = ''.'' then p else p @ [b])"

section \<open>The file systems behind a manager\<close>

text \<open>
  \<open>fs.ValidPath\<close>: the name is \<open>.\<close>, or slash-separated elements none of which is
  empty, \<open>.\<close> or \<open>..\<close>. The bytes of a name are taken to be valid UTF-8.
\<close>

fun split_slash :: "string \<Rightarrow> string list" where
  "split_slash [] = [[]]"
| "split_slash (c # cs) =
     (if c = CHR ''/'' then [] # split_slash cs
      else (c # hd (split_slash cs)) # tl (split_slash cs))"

fun valid_elems :: "string list \<Rightarrow> bool" where
  "valid_elems [] = True"
| "valid_elems (e # es) = (if e = [] then False else if e = ''.'' then False
                          else if e = ''..'' then False else valid_elems es)"

definition ValidPath :: "string \<Rightarrow> bool" where
  "ValidPath name = (if name = ''.'' then True else valid_elems (split_slash name))"

text \<open>
  \<open>fstest.MapFS.Open\<close> on a map of regular files, given as an association list: an
  invalid name does not exist; a key opens as its file; \<open>.\<close> and every name that is a
  directory above some key open as a directory; any other name does not exist.
\<close>

fun has_child :: "(string \<times> bytes) list \<Rightarrow> string \<Rightarrow> bool" where
  "has_child [] pre = False"
| "has_child ((fname, bs) # rest) pre =
     (if take (length pre) fname = pre then True else has_child rest pre)"

definition mapFS :: "(string \<times> bytes) list \<Rightarrow> string \<Rightarrow> error + fsfile" where
  "mapFS files name =
     (if ValidPath name then
        (case map_of files name of
           Some bs \<Rightarrow> Inr (RegularFile bs)
         | None \<Rightarrow>
             if name = ''.'' then Inr DirHandle
             else if has_child files (name @ ''/'') then Inr DirHandle
             else Inl ErrNotExist)
      else Inl ErrNotExist)"

text \<open>
  \<open>os.DirFS(root).Open\<close>: an invalid name is refused with \<open>ErrInvalid\<close>; otherwise
  the elements of the name are followed from the root directory, each step needing a
  directory, and what is found at the end is opened.
\<close>

fun lookup_from :: "fsys \<Rightarrow> path \<Rightarrow> path \<Rightarrow> error + node" where
  "lookup_from d cur [] =
     (case stat d cur of
        None \<Rightarrow> Inl ErrNotExist
      | Some n \<Rightarrow> Inr n)"
| "lookup_from d cur (c # cs) =
     (case stat d cur of
        None \<Rightarrow> Inl ErrNotExist
      | Some (File _) \<Rightarrow> Inl ENOTDIR
      | Some Dir \<Rightarrow> lookup_from d (cur @ [c]) cs)"

definition dirFS :: "path \<Rightarrow> fsys \<Rightarrow> string \<Rightarrow> error + fsfile" where
  "dirFS root d name =
     (if ValidPath name then
        (case lookup_from d root (if name = ''.'' then [] else split_slash name) of
           Inl e \<Rightarrow> Inl e
         | Inr Dir \<Rightarrow> Inr DirHandle
         | Inr (File bs) \<Rightarrow> Inr (RegularFile bs))
      else Inl ErrInvalid)"

section \<open>TreeSynchronizer: \<open>filepath.Walk\<close> and \<open>CopyAll\<close>\<close>

text \<open>
  \<open>filepath.Walk\<close> with a callback that threads a state of type \<open>'s\<close>. The callback
  gets the path, the entry (for \<open>info\<close>) and the error of \<open>Lstat\<close> or of listing the
  directory. A callback error ends the walk; after an entry with an error the walk goes
  on with the next entry when the callback returns no error. No callback of this
  program returns \<open>SkipDir\<close>.
\<close>

fun walk :: "(path \<Rightarrow> snode \<Rightarrow> error option \<Rightarrow> 's \<Rightarrow> error option \<times> 's) \<Rightarrow>
             path \<Rightarrow> snode \<Rightarrow> 's \<Rightarrow> error option \<times> 's"
and walk_names :: "(path \<Rightarrow> snode \<Rightarrow> error option \<Rightarrow> 's \<Rightarrow> error option \<times> 's) \<Rightarrow>
             path \<Rightarrow> (string \<times> snode) list \<Rightarrow> 's \<Rightarrow> error option \<times> 's" where
  "walk fn p (SFile f) s = fn p (SFile f) None s"
| "walk fn p (SErr e) s = fn p (SErr e) (Some e) s"
| "walk fn p (SDir names) s =
     (case fn p (SDir names) None s of
        (Some e, s') \<Rightarrow> (Some e, s')
      | (None, s') \<Rightarrow> walk_names fn p names s')"
| "walk_names fn p [] s = (None, s)"
| "walk_names fn p ((name, c) # rest) s =
     (case walk fn (p @ [name]) c s of
        (Some e, s') \<Rightarrow> (Some e, s')
      | (None, s') \<Rightarrow> walk_names fn p rest s')"

text \<open>The callback of \<open>CopyAll\<close>, statement by statement; the state is the output disk.\<close>

definition copyFn :: "manager \<Rightarrow> path \<Rightarrow> snode \<Rightarrow> error option \<Rightarrow> fsys \<Rightarrow> error option \<times> fsys" where
  "copyFn m p info err d =
     (case err of
        Some e \<Rightarrow> (Some e, d)
      | None \<Rightarrow>
          if IsDir info then (None, d)
          else
            (case Rel (inputFolder m) p of
               Inl e \<Rightarrow> (Some e, d)
             | Inr relativePath \<Rightarrow>
                 let destFolder = outputFolder m @ Dir_of relativePath in
                 (case MkdirAll destFolder d of
                    Inl e \<Rightarrow> (Some e, d)
                  | Inr d1 \<Rightarrow>
                      let destPath = Join1 destFolder (Base relativePath) in
                      (case os_Open info of
                         Inl e \<Rightarrow> (Some e, d1)
                       | Inr srcFile \<Rightarrow>
                           (case os_Create destPath d1 of
                              Inl e \<Rightarrow> (Some e, d1)
                            | Inr d2 \<Rightarrow> io_Copy destPath srcFile d2)))))"

text \<open>\<open>manager.CopyAll\<close>: the walk of the input folder, its error wrapped.\<close>

definition CopyAll :: "manager \<Rightarrow> snode \<Rightarrow> fsys \<Rightarrow> error option \<times> fsys" where
  "CopyAll m src d =
     (case walk (copyFn m) (inputFolder m) src d of
        (Some e, d') \<Rightarrow> (Some (Wrapped ''error copying files: '' e), d')
      | (None, d') \<Rightarrow> (None, d'))"

section \<open>TreeSynchronizer: \<open>Watch\<close>\<close>

text \<open>
  What the surroundings decide: whether \<open>fsnotify.NewWatcher\<close> fails, and for which
  paths \<open>watcher.Add\<close> fails.
\<close>

record env =
  NewWatcher_err :: "error option"
  Add_err :: "path \<Rightarrow> error option"

text \<open>An \<open>fsnotify.Event\<close>: a name and a set of operation flags; \<open>Has\<close> tests a flag.\<close>

datatype Op = Create | Write | Remove | Rename | Chmod

record event =
  Name :: path
  Ops :: "Op set"

definition Has :: "event \<Rightarrow> Op \<Rightarrow> bool" where
  "Has ev op \<longleftrightarrow> op \<in> Ops ev"

text \<open>\<open>watcher.Add\<close>: the state is the watch set.\<close>

definition watcher_Add :: "env \<Rightarrow> path \<Rightarrow> path set \<Rightarrow> error option \<times> path set" where
  "watcher_Add E p w =
     (case Add_err E p of
        Some e \<Rightarrow> (Some e, w)
      | None \<Rightarrow> (None, insert p w))"

text \<open>
  The state of the goroutine: the output disk, the watch set and the lines given to
  \<open>log.Println\<close>. One \<open>select\<close> receives one message: an event together with the input
  tree as it is then, an error, or the closing of either channel.
\<close>

record wstate =
  disk :: fsys
  watching :: "path set"
  logged :: "error list"

datatype msg = EventMsg event snode | EventsClosed | ErrorMsg error | ErrorsClosed

datatype loop = Running wstate | Returned wstate

text \<open>One iteration of the \<open>for\<close> loop of \<open>Watch\<close>.\<close>

fun select_step :: "manager \<Rightarrow> env \<Rightarrow> wstate \<Rightarrow> msg \<Rightarrow> loop" where
  "select_step m E st EventsClosed = Running st"
| "select_step m E st (EventMsg ev src) =
     (let needsCopy = Has ev Create \<or> Has ev Write \<or> Has ev Rename in
      if \<not> needsCopy then Running st
      else
        (case CopyAll m src (disk st) of
           (err, d') \<Rightarrow>
             let lg = (case err of Some e \<Rightarrow> logged st @ [e] | None \<Rightarrow> logged st);
                 w = (if Has ev Create then snd (watcher_Add E (Name ev) (watching st))
                      else watching st)
             in Running \<lparr>disk = d', watching = w, logged = lg\<rparr>))"
| "select_step m E st (ErrorMsg err) =
     Running (st\<lparr>logged := logged st @ [Wrapped ''error: '' err]\<rparr>)"
| "select_step m E st ErrorsClosed = Returned st"

text \<open>
  The loop on the messages that have arrived so far: after the last of them the
  goroutine is still running, waiting in \<open>select\<close>, unless it has returned.
\<close>

fun watch_loop :: "manager \<Rightarrow> env \<Rightarrow> msg list \<Rightarrow> wstate \<Rightarrow> loop" where
  "watch_loop m E [] st = Running st"
| "watch_loop m E (x # xs) st =
     (case select_step m E st x of
        Running st' \<Rightarrow> watch_loop m E xs st'
      | Returned st' \<Rightarrow> Returned st')"

text \<open>
  The callback of the walk in \<open>Watch\<close>: it adds the path to the watcher and looks at
  neither the entry nor the error it is given.
\<close>

definition addFn :: "env \<Rightarrow> path \<Rightarrow> snode \<Rightarrow> error option \<Rightarrow> path set \<Rightarrow> error option \<times> path set" where
  "addFn E path info err w = watcher_Add E path w"

text \<open>
  \<open>manager.Watch\<close>: the first \<open>CopyAll\<close>, whose error is logged; the watcher, whose
  failure panics; the walk that adds every path to the watcher, whose failure panics;
  then the loop. A panic keeps the disk and the log as they are by then.
\<close>

datatype outcome = Panicked error fsys "error list" | Started loop

definition Watch :: "manager \<Rightarrow> env \<Rightarrow> snode \<Rightarrow> fsys \<Rightarrow> msg list \<Rightarrow> outcome" where
  "Watch m E src d msgs =
     (case CopyAll m src d of
        (err, d1) \<Rightarrow>
          let lg = (case err of Some e \<Rightarrow> [e] | None \<Rightarrow> []) in
          (case NewWatcher_err E of
             Some e \<Rightarrow> Panicked (Wrapped ''error creating watcher: '' e) d1 lg
           | None \<Rightarrow>
               (case walk (addFn E) (inputFolder m) src {} of
                  (Some e, w) \<Rightarrow> Panicked (Wrapped ''error adding files to watcher: '' e) d1 lg
                | (None, w) \<Rightarrow>
                    Started (watch_loop m E msgs \<lparr>disk = d1, watching = w, logged = lg\<rparr>))))"

section \<open>FingerprintIndex: path resolution\<close>

text \<open>
  Modelled from the spec: \<open>PathFor\<close>, its normalisation, the index and the content
  hasher are not among the source files (only the test of \<open>PathFor\<close> is). The
  definitions below follow sections 3 and 4.3 of the specification; the hasher is a
  parameter.
\<close>

definition trim_prefix :: "string \<Rightarrow> string \<Rightarrow> string" where
  "trim_prefix pre s = (if take (length pre) s = pre then drop (length pre) s else s)"

text \<open>
  Modelled from the spec: the normalisation of \<open>PathFor\<close>, which strips any leading
  slash and any existing public-prefix segment.
\<close>

definition normalize_path :: "string \<Rightarrow> string" where
  "normalize_path name = trim_prefix ''public/'' (trim_prefix ''/'' name)"

text \<open>
  Modelled from the spec: the directory path of a logical path, up to and including its
  last slash.
\<close>

definition dir_part :: "string \<Rightarrow> string" where
  "dir_part n = rev (dropWhile (\<lambda>c. c \<noteq> CHR ''/'') (rev n))"

text \<open>
  Modelled from the spec: the base name of a logical path, what follows its last slash.
\<close>

definition base_part :: "string \<Rightarrow> string" where
  "base_part n = rev (takeWhile (\<lambda>c. c \<noteq> CHR ''/'') (rev n))"

text \<open>
  Modelled from the spec: the ServingPath has the token immediately before the base
  name, inside the original directory path, under a single leading slash and the public
  prefix.
\<close>

definition servingPathFor :: "(bytes \<Rightarrow> string) \<Rightarrow> string \<Rightarrow> bytes \<Rightarrow> string" where
  "servingPathFor hash n bs = ''/public/'' @ dir_part n @ hash bs @ ''-'' @ base_part n"

text \<open>
  Modelled from the spec: the FingerprintIndex, from normalised logical paths to
  ServingPaths.
\<close>

type_synonym index = "string \<rightharpoonup> string"

text \<open>
  Modelled from the spec: \<open>resolve\<close> normalises, answers from the index when the entry
  is there, otherwise reads the bytes through \<open>ReadFile\<close>, fails with not-found when they
  cannot be read, and else builds the ServingPath and stores it under the normalised
  path.
\<close>

definition resolve :: "manager \<Rightarrow> (bytes \<Rightarrow> string) \<Rightarrow> index \<Rightarrow> string \<Rightarrow> (error + string) \<times> index" where
  "resolve m hash idx name =
     (let n = normalize_path name in
      case idx n of
        Some sp \<Rightarrow> (Inr sp, idx)
      | None \<Rightarrow>
          (case ReadFile m n of
             Inl e \<Rightarrow> (Inl ErrNotExist, idx)
           | Inr bs \<Rightarrow>
               let sp = servingPathFor hash n bs in (Inr sp, idx(n \<mapsto> sp))))"

text \<open>
  An index is consistent with the bundle when each of its entries is the ServingPath
  built from the bytes that the bundle holds at the key.
\<close>

definition idx_consistent :: "manager \<Rightarrow> (bytes \<Rightarrow> string) \<Rightarrow> index \<Rightarrow> bool" where
  "idx_consistent m hash idx \<longleftrightarrow>
     (\<forall>n sp. idx n = Some sp \<longrightarrow> (\<exists>bs. ReadFile m n = Inr bs \<and> sp = servingPathFor hash n bs))"

section \<open>Notions used in the proofs\<close>

text \<open>The kind of what a disk holds at a path: nothing, a directory or a file.\<close>

fun is_dir :: "node \<Rightarrow> bool" where
  "is_dir Dir = True"
| "is_dir (File _) = False"

definition kind :: "fsys \<Rightarrow> path \<Rightarrow> bool option" where
  "kind d p = map_option is_dir (d p)"

definition same_kinds :: "fsys \<Rightarrow> fsys \<Rightarrow> bool" where
  "same_kinds d e \<longleftrightarrow> (\<forall>q. kind d q = kind e q)"

definition kinds_le :: "fsys \<Rightarrow> fsys \<Rightarrow> bool" where
  "kinds_le d e \<longleftrightarrow> (\<forall>q. d q \<noteq> None \<longrightarrow> kind e q = kind d q)"

text \<open>
  A step on the disk replays when, run again on a disk that already has the kinds of
  its result, it gives the same verdict, keeps the kinds, and leaves at every path
  either what the first run left there or what was there where the first run changed
  nothing.
\<close>

definition replays :: "(fsys \<Rightarrow> error option \<times> fsys) \<Rightarrow> bool" where
  "replays f \<longleftrightarrow>
     (\<forall>d r d'. f d = (r, d') \<longrightarrow>
        kinds_le d d' \<and>
        (\<forall>e. (if r = None then kinds_le d' e else same_kinds e d') \<longrightarrow>
           (\<exists>e'. f e = (r, e') \<and> same_kinds e' e \<and>
                 (\<forall>p. e' p = d' p \<or> (e' p = e p \<and> d' p = d p)))))"

text \<open>
  The calls that a walk makes to its callback when no call fails, in order, and the
  run of a callback over such a list, which stops at the first error.
\<close>

fun entries :: "path \<Rightarrow> snode \<Rightarrow> (path \<times> snode \<times> error option) list"
and entries_names :: "path \<Rightarrow> (string \<times> snode) list \<Rightarrow> (path \<times> snode \<times> error option) list" where
  "entries p (SFile f) = [(p, SFile f, None)]"
| "entries p (SErr e) = [(p, SErr e, Some e)]"
| "entries p (SDir names) = (p, SDir names, None) # entries_names p names"
| "entries_names p [] = []"
| "entries_names p ((name, c) # rest) = entries (p @ [name]) c @ entries_names p rest"

fun run_entries :: "(path \<Rightarrow> snode \<Rightarrow> error option \<Rightarrow> 's \<Rightarrow> error option \<times> 's) \<Rightarrow>
                    (path \<times> snode \<times> error option) list \<Rightarrow> 's \<Rightarrow> error option \<times> 's" where
  "run_entries fn [] s = (None, s)"
| "run_entries fn ((p, info, err) # rest) s =
     (case fn p info err s of
        (Some e, s') \<Rightarrow> (Some e, s')
      | (None, s') \<Rightarrow> run_entries fn rest s')"

section \<open>Concrete inputs\<close>

text \<open>
  A manager whose bundle holds a script and a Go source file, with the live folder
  \<open>public\<close>, and an input tree whose script differs from the bundled one.
\<close>

definition dev_manager :: manager where
  "dev_manager =
     \<lparr>embedded = mapFS [(''main.js'', ''OLD''), (''main.go'', ''package main'')],
      folder = dirFS [''public''],
      servingPath = ''/public/*'',
      inputFolder = [''assets''],
      outputFolder = [''public'']\<rparr>"

definition new_sources :: snode where
  "new_sources = SDir [(''main.js'', SFile (Readable ''NEW''))]"

text \<open>The disk after one \<open>CopyAll\<close> of that tree into an empty disk.\<close>

definition live_disk :: fsys where
  "live_disk = snd (CopyAll dev_manager new_sources Map.empty)"

text \<open>
  An input tree whose first file cannot be opened, surroundings in which nothing fails,
  in which no watcher can be made, and in which one path cannot be watched, and a write
  event.
\<close>

definition broken_sources :: snode where
  "broken_sources =
     SDir [(''a.js'', SFile (Unopenable EACCES)), (''b.js'', SFile (Readable ''B''))]"

definition ok_env :: env where
  "ok_env = \<lparr>NewWatcher_err = None, Add_err = (\<lambda>p. None)\<rparr>"

definition no_watcher_env :: env where
  "no_watcher_env = \<lparr>NewWatcher_err = Some EACCES, Add_err = (\<lambda>p. None)\<rparr>"

definition no_add_env :: env where
  "no_add_env =
     \<lparr>NewWatcher_err = None,
      Add_err = (\<lambda>p. if p = [''assets'', ''main.js''] then Some ErrNotExist else None)\<rparr>"

definition write_event :: event where
  "write_event = \<lparr>Name = [''assets'', ''a.js''], Ops = {Write}\<rparr>"

text \<open>
  Input trees whose first file is read in full, and is read half and then fails; a
  disk with a file where the output folder should be, and a disk with a directory where
  the first file should go; the state of a goroutine that has done nothing yet on a
  given disk.
\<close>

definition good_sources :: snode where
  "good_sources =
     SDir [(''a.js'', SFile (Readable ''AA'')), (''b.js'', SFile (Readable ''B''))]"

definition half_read_sources :: snode where
  "half_read_sources =
     SDir [(''a.js'', SFile (ReadFails ''A'' EIO)), (''b.js'', SFile (Readable ''B''))]"

definition file_at_public :: fsys where
  "file_at_public = Map.empty([''public''] \<mapsto> File ''x'')"

definition dir_at_a :: fsys where
  "dir_at_a = Map.empty([''public''] \<mapsto> Dir, [''public'', ''a.js''] \<mapsto> Dir)"

definition idle_on :: "fsys \<Rightarrow> wstate" where
  "idle_on d = \<lparr>disk = d, watching = {}, logged = []\<rparr>"

text \<open>
  The bundle of \<open>TestFingerprint\<close>: two files with the same bytes in different
  directories, and a hasher for it.
\<close>

definition test_manager :: manager where
  "test_manager =
     \<lparr>embedded = mapFS [(''main.js'', ''AAA''), (''other/main.js'', ''AAA'')],
      folder = dirFS [''public''],
      servingPath = ''/public/*'',
      inputFolder = [''assets''],
      outputFolder = [''public'']\<rparr>"

definition test_hash :: "bytes \<Rightarrow> string" where
  "test_hash bs = ''h'' @ bs"

section \<open>Properties\<close>

subsection \<open>Evaluation of the concrete inputs\<close>

lemma Rel_under [simp]: "Rel base (base @ p) = Inr p"
  by (induction base) auto

lemma CopyAll_new_sources:
  "CopyAll dev_manager new_sources Map.empty =
     (None, (Map.empty([''public''] \<mapsto> Dir, [''public'', ''main.js''] \<mapsto> File ''NEW'')))"
  by (simp add: CopyAll_def dev_manager_def new_sources_def copyFn_def
      MkdirAll.simps Dir_of_def Base_def Join1_def os_Create_def stat_def)

lemma live_disk_main: "live_disk [''public'', ''main.js''] = Some (File ''NEW'')"
  by (simp add: live_disk_def CopyAll_new_sources)

lemma live_disk_public: "live_disk [''public''] = Some Dir"
  by (simp add: live_disk_def CopyAll_new_sources)

lemma ValidPath_names:
  "ValidPath ''main.js''" "ValidPath ''main.go''" "ValidPath ''other/main.js''"
  by (simp_all add: ValidPath_def)

lemma embedded_dev:
  "embedded dev_manager ''main.go'' = Inr (RegularFile ''package main'')"
  "embedded dev_manager ''main.js'' = Inr (RegularFile ''OLD'')"
  by (simp_all add: dev_manager_def mapFS_def ValidPath_names)

lemma folder_dev_main:
  "folder dev_manager live_disk ''main.js'' = Inr (RegularFile ''NEW'')"
  by (simp add: dev_manager_def dirFS_def ValidPath_names stat_def live_disk_public live_disk_main)

lemma embedded_test:
  "embedded test_manager ''main.js'' = Inr (RegularFile ''AAA'')"
  "embedded test_manager ''other/main.js'' = Inr (RegularFile ''AAA'')"
  by (simp_all add: test_manager_def mapFS_def ValidPath_names)

subsection \<open>\<open>Open\<close> and \<open>ReadFile\<close>\<close>

text \<open>
  \<open>Open\<close> refuses every name whose extension is \<open>.go\<close>, whatever the mode and the disk.
\<close>

lemma Open_denylist: "Ext name = ''.go'' \<Longrightarrow> Open m env d name = Inl ErrNotExist"
  by (simp add: Open_def)

text \<open>\<open>ReadFile\<close> is the bundle's \<open>Open\<close> followed by \<open>ReadAll\<close>, for every name.\<close>

lemma ReadFile_embedded:
  "ReadFile m name = (case embedded m name of Inl e \<Rightarrow> Inl e | Inr x \<Rightarrow> ReadAll x)"
  by (simp add: ReadFile_def)

text \<open>
  Claim C1: a path with a denylisted extension is reported not-found by both \<open>Open\<close> and
  \<open>ReadFile\<close>, in both modes. \<open>Open\<close> does so; \<open>ReadFile\<close> does not check the extension:
  on a bundle that holds \<open>main.go\<close>, \<open>Open\<close> answers \<open>ErrNotExist\<close> in every mode and
  \<open>ReadFile\<close> returns the bytes of the Go file.
\<close>

theorem ReadFile_serves_go_file:
  "Ext ''main.go'' = ''.go'' \<and>
   Open dev_manager env d ''main.go'' = Inl ErrNotExist \<and>
   ReadFile dev_manager ''main.go'' = Inr ''package main''"
  by (simp add: Ext_def Open_def ReadFile_def embedded_dev)

text \<open>
  Claim C2: in development mode every \<open>Open\<close> and \<open>ReadFile\<close> reads the asset from the
  directory on disk, so that what the synchronizer wrote is seen by the next read.
  After \<open>CopyAll\<close> has written the new script to the live folder, \<open>Open\<close> in development
  mode returns the new bytes, and \<open>ReadFile\<close> still returns the bundled ones.
\<close>

theorem ReadFile_ignores_live_disk:
  "Open dev_manager ''development'' live_disk ''main.js'' = Inr (RegularFile ''NEW'') \<and>
   ReadFile dev_manager ''main.js'' = Inr ''OLD''"
  by (simp add: Open_def Ext_def ReadFile_def embedded_dev folder_dev_main)

text \<open>
  Claim C3, as amended: \<open>Open\<close> chooses between the live folder and the bundle on every
  call, from the value of \<open>GO_ENV\<close> at that call: the live folder when it is
  \<open>development\<close>, the bundle otherwise (for a name whose extension is not denylisted).
\<close>

theorem Open_selects_per_call:
  "Ext name \<noteq> ''.go'' \<Longrightarrow>
   Open m env d name = (if env = ''development'' then folder m d name else embedded m name)"
  by (simp add: Open_def)

theorem Open_selects_per_call_witness:
  "Ext ''main.js'' \<noteq> ''.go'' \<and>
   Open dev_manager ''development'' live_disk ''main.js'' = folder dev_manager live_disk ''main.js'' \<and>
   Open dev_manager ''production'' live_disk ''main.js'' = embedded dev_manager ''main.js''"
proof -
  have h: "Ext ''main.js'' \<noteq> ''.go''" by (simp add: Ext_def)
  show ?thesis
    using h Open_selects_per_call[OF h, of dev_manager "''development''" live_disk]
      Open_selects_per_call[OF h, of dev_manager "''production''" live_disk]
    by simp
qed

text \<open>
  Claim C3 as stated fails: one and the same manager, on one and the same disk, answers
  \<open>Open\<close> from the live folder when the environment says \<open>development\<close> at the call and
  from the bundle when it says \<open>production\<close>.
\<close>

theorem Open_mode_counterexample:
  "Open dev_manager ''development'' live_disk ''main.js'' \<noteq>
   Open dev_manager ''production'' live_disk ''main.js''"
  by (simp add: Open_def Ext_def embedded_dev folder_dev_main)

subsection \<open>The disk under \<open>MkdirAll\<close>, \<open>Create\<close> and \<open>Copy\<close>\<close>

lemma kind_simps [simp]:
  "kind d p = None \<longleftrightarrow> d p = None"
  "kind d p = Some True \<longleftrightarrow> d p = Some Dir"
  "kind d p = Some False \<longleftrightarrow> (\<exists>bs. d p = Some (File bs))"
    apply (auto simp: kind_def)
   apply (case_tac z; simp)
  apply (case_tac z; simp)
  done

lemma kind_upd [simp]: "kind (d(p \<mapsto> n)) q = (if q = p then Some (is_dir n) else kind d q)"
  by (simp add: kind_def)

lemma MkdirAll_dir: "MkdirAll p d = Inr d' \<Longrightarrow> stat d' p = Some Dir"
  by (subst (asm) MkdirAll.simps) (auto simp: stat_def split: if_splits option.splits node.splits sum.splits)

lemma MkdirAll_frame: "MkdirAll p d = Inr d' \<Longrightarrow> d' q = d q \<or> (d q = None \<and> d' q = Some Dir)"
proof (induction p d arbitrary: d' rule: MkdirAll.induct)
  case (1 p d)
  show ?case
  proof (cases "p = []")
    case True with "1.prems" show ?thesis by (subst (asm) MkdirAll.simps) simp
  next
    case False
    show ?thesis
    proof (cases "d p")
      case None
      with False "1.prems" obtain d1 where m: "MkdirAll (butlast p) d = Inr d1" and d': "d' = d1(p \<mapsto> Dir)"
        by (subst (asm) MkdirAll.simps) (auto split: sum.splits)
      from "1.IH"[OF False None m] have "d1 q = d q \<or> (d q = None \<and> d1 q = Some Dir)" .
      with d' None show ?thesis by auto
    next
      case (Some n)
      with False "1.prems" show ?thesis
        by (subst (asm) MkdirAll.simps) (auto split: node.splits)
    qed
  qed
qed

lemma MkdirAll_noop: "stat d p = Some Dir \<Longrightarrow> MkdirAll p d = Inr d"
  by (subst MkdirAll.simps) (auto simp: stat_def split: if_splits)

lemma MkdirAll_fail_kinds:
  "MkdirAll p d = Inl er \<Longrightarrow> same_kinds e d \<Longrightarrow> MkdirAll p e = Inl er"
proof (induction p d arbitrary: rule: MkdirAll.induct)
  case (1 p d)
  from "1.prems"(1) have ne: "p \<noteq> []" by (subst (asm) MkdirAll.simps) (auto split: if_splits)
  have k: "kind e p = kind d p" using "1.prems"(2) by (simp add: same_kinds_def)
  show ?case
  proof (cases "d p")
    case None
    hence en: "e p = None" using k by (metis kind_simps(1))
    from None ne "1.prems"(1) have m: "MkdirAll (butlast p) d = Inl er"
      by (subst (asm) MkdirAll.simps) (auto split: sum.splits)
    from "1.IH"[OF ne None m "1.prems"(2)] show ?thesis
      using ne en by (subst MkdirAll.simps) simp
  next
    case (Some n)
    with ne "1.prems"(1) obtain bs where f: "d p = Some (File bs)" and er: "er = ENOTDIR"
      by (subst (asm) MkdirAll.simps) (auto split: node.splits)
    from f k obtain bs' where "e p = Some (File bs')" by (metis kind_simps(3))
    with ne er show ?thesis by (subst MkdirAll.simps) simp
  qed
qed

lemma same_kinds_refl [simp]: "same_kinds d d" by (simp add: same_kinds_def)
lemma kinds_le_refl [simp]: "kinds_le d d" by (simp add: kinds_le_def)
lemma same_kinds_sym: "same_kinds d e \<Longrightarrow> same_kinds e d" by (simp add: same_kinds_def)
lemma same_kinds_trans: "same_kinds d e \<Longrightarrow> same_kinds e f \<Longrightarrow> same_kinds d f" by (simp add: same_kinds_def)
lemma same_kinds_le: "same_kinds e d \<Longrightarrow> kinds_le d e" by (simp add: same_kinds_def kinds_le_def)
lemma kinds_le_trans: "kinds_le a b \<Longrightarrow> kinds_le b c \<Longrightarrow> kinds_le a c"
  unfolding kinds_le_def by (metis kind_simps(1))
lemma kinds_le_same: "kinds_le a b \<Longrightarrow> same_kinds c b \<Longrightarrow> kinds_le a c"
  unfolding kinds_le_def same_kinds_def by metis

lemma replays_const: "replays (\<lambda>d. (r, d))"
  unfolding replays_def by auto

lemma replays_seq:
  assumes f: "replays f" and g: "replays g"
  shows "replays (\<lambda>d. case f d of (Some er, s') \<Rightarrow> (Some er, s') | (None, s') \<Rightarrow> g s')"
  unfolding replays_def
proof (intro allI impI)
  fix d r d'
  assume run: "(case f d of (Some er, s') \<Rightarrow> (Some er, s') | (None, s') \<Rightarrow> g s') = (r, d')"
  obtain rf d1 where fd: "f d = (rf, d1)" by (cases "f d")
  from f fd have le1: "kinds_le d d1"
    and rep1: "\<And>e. (if rf = None then kinds_le d1 e else same_kinds e d1) \<Longrightarrow>
       \<exists>e'. f e = (rf, e') \<and> same_kinds e' e \<and> (\<forall>p. e' p = d1 p \<or> (e' p = e p \<and> d1 p = d p))"
    unfolding replays_def by blast+
  show "kinds_le d d' \<and>
        (\<forall>e. (if r = None then kinds_le d' e else same_kinds e d') \<longrightarrow>
           (\<exists>e'. (case f e of (Some er, s') \<Rightarrow> (Some er, s') | (None, s') \<Rightarrow> g s') = (r, e') \<and> same_kinds e' e \<and>
                 (\<forall>p. e' p = d' p \<or> (e' p = e p \<and> d' p = d p))))"
  proof (cases rf)
    case (Some er)
    with run fd have r: "r = Some er" and d': "d' = d1" by auto
    show ?thesis
    proof (intro conjI allI impI)
      show "kinds_le d d'" using le1 d' by simp
    next
      fix e assume "if r = None then kinds_le d' e else same_kinds e d'"
      with r d' Some have "if rf = None then kinds_le d1 e else same_kinds e d1" by simp
      from rep1[OF this] obtain e' where "f e = (rf, e')" "same_kinds e' e"
        "\<forall>p. e' p = d1 p \<or> (e' p = e p \<and> d1 p = d p)" by blast
      thus "\<exists>e'. (case f e of (Some er, s') \<Rightarrow> (Some er, s') | (None, s') \<Rightarrow> g s') = (r, e') \<and> same_kinds e' e \<and>
                 (\<forall>p. e' p = d' p \<or> (e' p = e p \<and> d' p = d p))"
        using Some r d' by auto
    qed
  next
    case None
    with run fd have gd: "g d1 = (r, d')" by simp
    from g gd have le2: "kinds_le d1 d'"
      and rep2: "\<And>e. (if r = None then kinds_le d' e else same_kinds e d') \<Longrightarrow>
         \<exists>e'. g e = (r, e') \<and> same_kinds e' e \<and> (\<forall>p. e' p = d' p \<or> (e' p = e p \<and> d' p = d1 p))"
      unfolding replays_def by blast+
    show ?thesis
    proof (intro conjI allI impI)
      show "kinds_le d d'" using le1 le2 by (rule kinds_le_trans)
    next
      fix e assume h: "if r = None then kinds_le d' e else same_kinds e d'"
      hence le: "kinds_le d' e" by (auto split: if_splits intro: same_kinds_le)
      have "kinds_le d1 e" using le2 le by (rule kinds_le_trans)
      with None rep1[of e] obtain e1 where fe: "f e = (None, e1)" and sk1: "same_kinds e1 e"
        and c1: "\<forall>p. e1 p = d1 p \<or> (e1 p = e p \<and> d1 p = d p)" by auto
      have h1: "if r = None then kinds_le d' e1 else same_kinds e1 d'"
        using h sk1 by (auto split: if_splits intro: kinds_le_same same_kinds_trans)
      from rep2[OF h1] obtain e' where ge: "g e1 = (r, e')" and sk2: "same_kinds e' e1"
        and c2: "\<forall>p. e' p = d' p \<or> (e' p = e1 p \<and> d' p = d1 p)" by blast
      have "\<forall>p. e' p = d' p \<or> (e' p = e p \<and> d' p = d p)"
      proof
        fix p from c1[rule_format, of p] c2[rule_format, of p]
        show "e' p = d' p \<or> (e' p = e p \<and> d' p = d p)" by auto
      qed
      thus "\<exists>e'. (case f e of (Some er, s') \<Rightarrow> (Some er, s') | (None, s') \<Rightarrow> g s') = (r, e') \<and> same_kinds e' e \<and>
                 (\<forall>p. e' p = d' p \<or> (e' p = e p \<and> d' p = d p))"
        using fe ge sk1 sk2 by (auto intro: same_kinds_trans)
    qed
  qed
qed

lemma replays_idem:
  assumes "replays f" and "f d = (r, d')"
  shows "f d' = (r, d')"
proof -
  have "if r = None then kinds_le d' d' else same_kinds d' d'" by simp
  with assms obtain e' where fe: "f d' = (r, e')" and c: "\<forall>p. e' p = d' p \<or> (e' p = d' p \<and> d' p = d p)"
    unfolding replays_def by blast
  from c have "e' = d'" by auto
  with fe show ?thesis by simp
qed

lemma os_Create_fail_kinds:
  "os_Create p d = Inl er \<Longrightarrow> same_kinds e d \<Longrightarrow> os_Create p e = Inl er"
proof -
  assume a: "os_Create p d = Inl er" and s: "same_kinds e d"
  have k1: "kind e p = kind d p" and k2: "kind e (butlast p) = kind d (butlast p)"
    using s by (simp_all add: same_kinds_def)
  show ?thesis
  proof (cases "p = []")
    case True with a show ?thesis by (simp add: os_Create_def stat_def)
  next
    case False
    show ?thesis using a k1 k2 False
      unfolding os_Create_def stat_def kind_def
      by (auto split: option.splits node.splits if_splits)
  qed
qed

lemma os_Create_ok:
  "os_Create p d = Inr d' \<Longrightarrow> p \<noteq> [] \<and> d p \<noteq> Some Dir \<and> stat d (butlast p) = Some Dir \<and> d' = d(p \<mapsto> File [])"
  unfolding os_Create_def stat_def
  by (auto split: option.splits node.splits if_splits)

lemma os_Create_again:
  "p \<noteq> [] \<Longrightarrow> d p = Some (File bs) \<Longrightarrow> stat d (butlast p) = Some Dir \<Longrightarrow> os_Create p d = Inr (d(p \<mapsto> File []))"
  unfolding os_Create_def stat_def
  by (auto split: option.splits node.splits if_splits)

lemma io_Copy_result:
  "io_Copy p f d = (r, d') \<Longrightarrow> os_Open info = Inr f \<Longrightarrow> \<exists>bs. d' = d(p \<mapsto> File bs) \<and> (\<forall>e. io_Copy p f e = (r, e(p \<mapsto> File bs)))"
proof -
  assume c: "io_Copy p f d = (r, d')" and o: "os_Open info = Inr f"
  from o have "(\<exists>bs. f = Readable bs) \<or> (\<exists>bs e. f = ReadFails bs e)"
    by (auto elim!: os_Open.elims)
  with c show ?thesis by auto
qed

lemma stat_kinds: "kinds_le d e \<Longrightarrow> stat d p = Some Dir \<Longrightarrow> stat e p = Some Dir"
  unfolding kinds_le_def stat_def by (auto split: if_splits) (metis kind_simps(2) option.distinct(1))

lemma frame_content:
  assumes fr: "\<And>q. d1 q = d q \<or> (d q = None \<and> d1 q = Some Dir)" and le: "kinds_le d1 e"
  shows "e p = d1 p \<or> (e p = e p \<and> d1 p = d p)"
proof -
  from fr[of p] show ?thesis
  proof
    assume "d1 p = d p" thus ?thesis by simp
  next
    assume "d p = None \<and> d1 p = Some Dir"
    with le have "e p = Some Dir" unfolding kinds_le_def by (metis kind_simps(2) option.distinct(1))
    with \<open>d p = None \<and> d1 p = Some Dir\<close> show ?thesis by simp
  qed
qed

lemma frame_kinds_le:
  assumes fr: "\<And>q. d1 q = d q \<or> (d q = None \<and> d1 q = Some Dir)" shows "kinds_le d d1"
  unfolding kinds_le_def using fr by (metis kind_def)

lemma Join1_cases: "Join1 p b = p \<or> Join1 p b = p @ [b]"
  by (simp add: Join1_def)

lemma replays_copy_body:
  "replays (\<lambda>d. case MkdirAll destFolder d of
                    Inl e \<Rightarrow> (Some e, d)
                  | Inr d1 \<Rightarrow>
                      (case os_Open info of
                         Inl e \<Rightarrow> (Some e, d1)
                       | Inr srcFile \<Rightarrow>
                           (case os_Create destPath d1 of
                              Inl e \<Rightarrow> (Some e, d1)
                            | Inr d2 \<Rightarrow> io_Copy destPath srcFile d2)))"
  (is "replays ?f")
  if dp: "destPath = destFolder \<or> destPath = destFolder @ [b]"
  unfolding replays_def
proof (intro allI impI)
  fix d r d'
  assume run: "?f d = (r, d')"
  let ?goal = "kinds_le d d' \<and>
        (\<forall>e. (if r = None then kinds_le d' e else same_kinds e d') \<longrightarrow>
           (\<exists>e'. ?f e = (r, e') \<and> same_kinds e' e \<and>
                 (\<forall>p. e' p = d' p \<or> (e' p = e p \<and> d' p = d p))))"
  show ?goal
  proof (cases "MkdirAll destFolder d")
    case (Inl er)
    with run have r: "r = Some er" and d': "d' = d" by auto
    show ?thesis
    proof (intro conjI allI impI)
      show "kinds_le d d'" using d' by simp
    next
      fix e assume "if r = None then kinds_le d' e else same_kinds e d'"
      with r d' have "same_kinds e d" by simp
      from MkdirAll_fail_kinds[OF Inl this] have "?f e = (r, e)" using r by simp
      thus "\<exists>e'. ?f e = (r, e') \<and> same_kinds e' e \<and> (\<forall>p. e' p = d' p \<or> (e' p = e p \<and> d' p = d p))"
        using d' by auto
    qed
  next
    case (Inr d1)
    note mk = this
    have fr: "\<And>q. d1 q = d q \<or> (d q = None \<and> d1 q = Some Dir)" using MkdirAll_frame[OF mk] .
    have dir1: "stat d1 destFolder = Some Dir" using MkdirAll_dir[OF mk] .
    have le01: "kinds_le d d1" using fr by (rule frame_kinds_le)
    have stop: ?goal if r': "r \<noteq> None" and d': "d' = d1"
      and again: "\<And>e. same_kinds e d1 \<Longrightarrow> MkdirAll destFolder e = Inr e \<Longrightarrow> ?f e = (r, e)"
    proof (intro conjI allI impI)
      show "kinds_le d d'" using le01 d' by simp
    next
      fix e assume "if r = None then kinds_le d' e else same_kinds e d'"
      with r' d' have sk: "same_kinds e d1" by (auto split: if_splits)
      hence le: "kinds_le d1 e" by (rule same_kinds_le)
      have "MkdirAll destFolder e = Inr e" using stat_kinds[OF le dir1] by (rule MkdirAll_noop)
      from again[OF sk this] have fe: "?f e = (r, e)" .
      have "\<forall>p. e p = d' p \<or> (e p = e p \<and> d' p = d p)"
        using frame_content[OF fr le] d' by blast
      with fe show "\<exists>e'. ?f e = (r, e') \<and> same_kinds e' e \<and> (\<forall>p. e' p = d' p \<or> (e' p = e p \<and> d' p = d p))"
        by auto
    qed
    show ?thesis
    proof (cases "os_Open info")
      case (Inl er)
      with run mk have "r = Some er" "d' = d1" by auto
      thus ?thesis using Inl by (intro stop) auto
    next
      case (Inr srcFile)
      note op = this
      show ?thesis
      proof (cases "os_Create destPath d1")
        case (Inl er)
        with run mk op have r: "r = Some er" "d' = d1" by auto
        show ?thesis
        proof (rule stop)
          fix e assume "same_kinds e d1" "MkdirAll destFolder e = Inr e"
          with os_Create_fail_kinds[OF Inl] op r show "?f e = (r, e)" by simp
        qed (use r in auto)
      next
        case (Inr d2)
        from os_Create_ok[OF Inr] have ne: "destPath \<noteq> []" and nd: "d1 destPath \<noteq> Some Dir"
          and par: "stat d1 (butlast destPath) = Some Dir" and d2: "d2 = d1(destPath \<mapsto> File [])" by auto
        from run mk op Inr have "io_Copy destPath srcFile d2 = (r, d')" by simp
        from io_Copy_result[OF this op] obtain bs where d': "d' = d2(destPath \<mapsto> File bs)"
          and cp: "\<And>e. io_Copy destPath srcFile e = (r, e(destPath \<mapsto> File bs))" by blast
        have d'': "d' = d1(destPath \<mapsto> File bs)" using d' d2 by simp
        have le1: "kinds_le d1 d'" unfolding kinds_le_def d'' using nd
          by (auto simp: kind_def) (case_tac y; simp)
        show ?thesis
        proof (intro conjI allI impI)
          show "kinds_le d d'" using le01 le1 by (rule kinds_le_trans)
        next
          fix e assume "if r = None then kinds_le d' e else same_kinds e d'"
          hence le: "kinds_le d' e" by (auto split: if_splits intro: same_kinds_le)
          have le1e: "kinds_le d1 e" using le1 le by (rule kinds_le_trans)
          have mke: "MkdirAll destFolder e = Inr e" using stat_kinds[OF le1e dir1] by (rule MkdirAll_noop)
          have "kind e destPath = kind d' destPath" using le d'' by (simp add: kinds_le_def)
          hence "kind e destPath = Some False" using d'' by simp
          then obtain bs' where ef: "e destPath = Some (File bs')" by (auto simp only: kind_simps)
          have pare: "stat e (butlast destPath) = Some Dir" using stat_kinds[OF le1e par] .
          have "os_Create destPath e = Inr (e(destPath \<mapsto> File []))"
            using os_Create_again[OF ne ef pare] .
          hence fe: "?f e = (r, e(destPath \<mapsto> File bs))" using mke op cp by simp
          have sk: "same_kinds (e(destPath \<mapsto> File bs)) e" using ef by (auto simp: same_kinds_def kind_def)
          have "\<forall>p. (e(destPath \<mapsto> File bs)) p = d' p \<or> ((e(destPath \<mapsto> File bs)) p = e p \<and> d' p = d p)"
          proof
            fix p show "(e(destPath \<mapsto> File bs)) p = d' p \<or> ((e(destPath \<mapsto> File bs)) p = e p \<and> d' p = d p)"
              using frame_content[OF fr le1e, of p] d'' by (cases "p = destPath") auto
          qed
          with fe sk show "\<exists>e'. ?f e = (r, e') \<and> same_kinds e' e \<and> (\<forall>p. e' p = d' p \<or> (e' p = e p \<and> d' p = d p))"
            by blast
        qed
      qed
    qed
  qed
qed

lemma replays_copyFn: "replays (copyFn m p info err)"
proof -
  have c: "replays (\<lambda>d. (r, d))" for r :: "error option" by (rule replays_const)
  show ?thesis
  proof (cases err)
    case (Some e)
    have "copyFn m p info err = (\<lambda>d. (Some e, d))" using Some by (auto simp: copyFn_def)
    thus ?thesis using c by simp
  next
    case None
    show ?thesis
    proof (cases "IsDir info")
      case True
      have "copyFn m p info err = (\<lambda>d. (None, d))" using None True by (auto simp: copyFn_def)
      thus ?thesis using c by simp
    next
      case False
      show ?thesis
      proof (cases "Rel (inputFolder m) p")
        case (Inl e)
        have "copyFn m p info err = (\<lambda>d. (Some e, d))" using None False Inl by (auto simp: copyFn_def)
        thus ?thesis using c by simp
      next
        case (Inr rp)
        have "copyFn m p info err = (\<lambda>d. case MkdirAll (outputFolder m @ Dir_of rp) d of
                    Inl e \<Rightarrow> (Some e, d)
                  | Inr d1 \<Rightarrow>
                      (case os_Open info of
                         Inl e \<Rightarrow> (Some e, d1)
                       | Inr srcFile \<Rightarrow>
                           (case os_Create (Join1 (outputFolder m @ Dir_of rp) (Base rp)) d1 of
                              Inl e \<Rightarrow> (Some e, d1)
                            | Inr d2 \<Rightarrow> io_Copy (Join1 (outputFolder m @ Dir_of rp) (Base rp)) srcFile d2)))"
          using None False Inr by (intro ext) (simp add: copyFn_def Let_def split: sum.splits)
        thus ?thesis using replays_copy_body[OF Join1_cases] by simp
      qed
    qed
  qed
qed

lemma replays_walk_names_aux:
  assumes "\<And>c q. c \<in> snd ` set ns \<Longrightarrow> replays (walk fn q c)"
  shows "replays (walk_names fn p ns)"
  using assms
proof (induction ns)
  case Nil
  have "walk_names fn p [] = (\<lambda>d. (None, d))" by (rule ext) simp
  thus ?case using replays_const by simp
next
  case (Cons a rest)
  obtain name c where a: "a = (name, c)" by (cases a)
  have eq: "walk_names fn p (a # rest) =
     (\<lambda>d. case walk fn (p @ [name]) c d of (Some er, s') \<Rightarrow> (Some er, s') | (None, s') \<Rightarrow> walk_names fn p rest s')"
    unfolding a by (rule ext) simp
  have r1: "replays (walk fn (p @ [name]) c)" using Cons.prems a by force
  have r2: "replays (walk_names fn p rest)" using Cons by force
  show ?case unfolding eq using r1 r2 by (rule replays_seq)
qed

lemma replays_walk:
  assumes fn: "\<And>p info err. replays (fn p info err)"
  shows "replays (walk fn p n)"
proof (induction n arbitrary: p)
  case (SFile f)
  have "walk fn p (SFile f) = fn p (SFile f) None" by (rule ext) simp
  thus ?case using fn by simp
next
  case (SErr e)
  have "walk fn p (SErr e) = fn p (SErr e) (Some e)" by (rule ext) simp
  thus ?case using fn by simp
next
  case (SDir names)
  have eq: "walk fn p (SDir names) =
     (\<lambda>d. case fn p (SDir names) None d of (Some er, s') \<Rightarrow> (Some er, s') | (None, s') \<Rightarrow> walk_names fn p names s')"
    by (rule ext) simp
  have "replays (walk_names fn p names)"
  proof (rule replays_walk_names_aux)
    fix c q assume "c \<in> snd ` set names"
    then obtain x where "x \<in> set names" "c \<in> Basic_BNFs.snds x" by (cases) (auto simp: snds.simps)
    thus "replays (walk fn q c)" by (rule SDir.IH)
  qed
  with fn show ?case unfolding eq by (rule replays_seq)
qed

text \<open>
  Claim C7: \<open>CopyAll\<close> is idempotent. Run on the disk that a first run left, with the
  input tree unchanged, it returns what the first run returned (the same error, if
  any) and leaves the disk as the first run left it, at every path.
\<close>

theorem CopyAll_idempotent:
  "CopyAll m src (snd (CopyAll m src d)) = CopyAll m src d"
proof -
  obtain r0 d' where w: "walk (copyFn m) (inputFolder m) src d = (r0, d')"
    by (cases "walk (copyFn m) (inputFolder m) src d")
  have "replays (walk (copyFn m) (inputFolder m) src)"
    by (rule replays_walk) (rule replays_copyFn)
  from replays_idem[OF this w] have w': "walk (copyFn m) (inputFolder m) src d' = (r0, d')" .
  have "snd (CopyAll m src d) = d'" using w by (simp add: CopyAll_def split: option.splits)
  thus ?thesis using w w' by (simp add: CopyAll_def)
qed

theorem CopyAll_idempotent_witness:
  "CopyAll dev_manager new_sources live_disk = (None, live_disk) \<and>
   live_disk [''public'', ''main.js''] = Some (File ''NEW'')"
proof -
  have l: "snd (CopyAll dev_manager new_sources Map.empty) = live_disk"
    by (simp only: live_disk_def)
  have "CopyAll dev_manager new_sources live_disk = CopyAll dev_manager new_sources Map.empty"
    using CopyAll_idempotent[of dev_manager new_sources Map.empty] unfolding l .
  moreover have "CopyAll dev_manager new_sources Map.empty = (None, live_disk)"
    using l CopyAll_new_sources by simp
  ultimately show ?thesis using live_disk_main by simp
qed

subsection \<open>The walk as a list of calls\<close>

lemma run_entries_append:
  "run_entries fn (xs @ ys) s =
     (case run_entries fn xs s of (Some e, s') \<Rightarrow> (Some e, s') | (None, s') \<Rightarrow> run_entries fn ys s')"
  by (induction xs arbitrary: s) (auto split: prod.splits option.splits)

lemma walk_entries:
  "walk fn p n s = run_entries fn (entries p n) s"
  "walk_names fn p ns s = run_entries fn (entries_names p ns) s"
  by (induction fn p n s and fn p ns s rule: walk_walk_names.induct)
     (auto simp: run_entries_append split: prod.splits option.splits)

lemma CopyAll_entries:
  "CopyAll m src d =
     (case run_entries (copyFn m) (entries (inputFolder m) src) d of
        (Some e, d') \<Rightarrow> (Some (Wrapped ''error copying files: '' e), d')
      | (None, d') \<Rightarrow> (None, d'))"
  by (simp add: CopyAll_def walk_entries)

lemma entries_under_root:
  "x \<in> set (entries root n) \<Longrightarrow> \<exists>rel. fst x = root @ rel"
  "x \<in> set (entries_names root ns) \<Longrightarrow> \<exists>rel. fst x = root @ rel"
proof (induction root n and root ns rule: entries_entries_names.induct)
  case (5 p name c rest)
  from "5.prems" have "x \<in> set (entries (p @ [name]) c) \<or> x \<in> set (entries_names p rest)" by simp
  thus ?case
  proof
    assume "x \<in> set (entries (p @ [name]) c)"
    from "5.IH"(1)[OF this] obtain rel where "fst x = (p @ [name]) @ rel" by blast
    hence "fst x = p @ (name # rel)" by simp
    thus ?thesis by blast
  next
    assume "x \<in> set (entries_names p rest)"
    from "5.IH"(2)[OF this] show ?thesis .
  qed
qed auto

text \<open>
  The callback of \<open>CopyAll\<close> on a regular file under the input folder returns an error
  exactly when one of its four steps fails: \<open>MkdirAll\<close>, \<open>os.Open\<close>, \<open>os.Create\<close> or
  \<open>io.Copy\<close>; the error is that of the step and the disk is the one the step left.
\<close>

lemma copyFn_file_error_iff:
  "copyFn m (inputFolder m @ rel) (SFile f) None d = (Some e, d2) \<longleftrightarrow>
     (MkdirAll (outputFolder m @ Dir_of rel) d = Inl e \<and> d2 = d) \<or>
     (\<exists>dm. MkdirAll (outputFolder m @ Dir_of rel) d = Inr dm \<and>
           os_Open (SFile f) = Inl e \<and> d2 = dm) \<or>
     (\<exists>dm sf. MkdirAll (outputFolder m @ Dir_of rel) d = Inr dm \<and>
           os_Open (SFile f) = Inr sf \<and>
           os_Create (Join1 (outputFolder m @ Dir_of rel) (Base rel)) dm = Inl e \<and> d2 = dm) \<or>
     (\<exists>dm sf dc. MkdirAll (outputFolder m @ Dir_of rel) d = Inr dm \<and>
           os_Open (SFile f) = Inr sf \<and>
           os_Create (Join1 (outputFolder m @ Dir_of rel) (Base rel)) dm = Inr dc \<and>
           io_Copy (Join1 (outputFolder m @ Dir_of rel) (Base rel)) sf dc = (Some e, d2))"
  by (cases "MkdirAll (outputFolder m @ Dir_of rel) d"; cases "os_Open (SFile f)";
      simp add: copyFn_def Let_def split: sum.splits; blast?)

lemma entries_two_files:
  "entries [''assets''] (SDir [(''a.js'', SFile fa), (''b.js'', SFile fb)]) =
     [([''assets''], SDir [(''a.js'', SFile fa), (''b.js'', SFile fb)], None)] @
     ([''assets''] @ [''a.js''], SFile fa, None) # [([''assets'', ''b.js''], SFile fb, None)]"
  by simp

lemma run_dir_entry:
  "run_entries (copyFn m) [(p, SDir ns, None)] d = (None, d)"
  by (simp add: copyFn_def)

lemma dev_folders:
  "inputFolder dev_manager = [''assets'']" "outputFolder dev_manager = [''public'']"
  by (simp_all add: dev_manager_def)

lemma dest_a:
  "outputFolder dev_manager @ Dir_of [''a.js''] = [''public'']"
  "Join1 [''public''] (Base [''a.js'']) = [''public'', ''a.js'']"
  by (simp_all add: dev_folders Dir_of_def Join1_def Base_def)

lemma MkdirAll_public:
  "MkdirAll [''public''] Map.empty = Inr (Map.empty([''public''] \<mapsto> Dir))"
  "MkdirAll [''public''] file_at_public = Inl ENOTDIR"
  "MkdirAll [''public''] dir_at_a = Inr dir_at_a"
  by (simp_all add: MkdirAll.simps file_at_public_def dir_at_a_def)

lemma write_event_has: "Has write_event Create \<or> Has write_event Write \<or> Has write_event Rename"
  by (simp add: Has_def write_event_def)

text \<open>
  Claim C8: when, during a resync, the copy of one file fails at any of its steps
  (\<open>MkdirAll\<close>, \<open>os.Open\<close>, \<open>os.Create\<close> or \<open>io.Copy\<close>), the entries before it having
  been handled without error, \<open>CopyAll\<close> returns the error of that step, wrapped, and
  the disk is the one that the failed step left: no later entry of the walk is handled.
  The loop logs the error and goes on with the messages that follow, so that a later
  event runs \<open>CopyAll\<close> again.
\<close>

theorem resync_aborts_on_failed_copy:
  assumes "entries (inputFolder m) src = pre @ (inputFolder m @ rel, SFile f, None) # post"
    and "run_entries (copyFn m) pre (disk st) = (None, d1)"
    and "destFolder = outputFolder m @ Dir_of rel"
    and "destPath = Join1 destFolder (Base rel)"
    and "(MkdirAll destFolder d1 = Inl e \<and> d2 = d1) \<or>
         (\<exists>dm. MkdirAll destFolder d1 = Inr dm \<and> os_Open (SFile f) = Inl e \<and> d2 = dm) \<or>
         (\<exists>dm sf. MkdirAll destFolder d1 = Inr dm \<and> os_Open (SFile f) = Inr sf \<and>
               os_Create destPath dm = Inl e \<and> d2 = dm) \<or>
         (\<exists>dm sf dc. MkdirAll destFolder d1 = Inr dm \<and> os_Open (SFile f) = Inr sf \<and>
               os_Create destPath dm = Inr dc \<and> io_Copy destPath sf dc = (Some e, d2))"
    and "Has ev Create \<or> Has ev Write \<or> Has ev Rename"
  shows "CopyAll m src (disk st) = (Some (Wrapped ''error copying files: '' e), d2) \<and>
         watch_loop m E (EventMsg ev src # later) st =
           watch_loop m E later
             \<lparr>disk = d2,
              watching = (if Has ev Create then snd (watcher_Add E (Name ev) (watching st))
                          else watching st),
              logged = logged st @ [Wrapped ''error copying files: '' e]\<rparr>"
proof -
  have f: "copyFn m (inputFolder m @ rel) (SFile f) None d1 = (Some e, d2)"
    using assms(5) unfolding assms(3,4) by (simp only: copyFn_file_error_iff)
  have c: "CopyAll m src (disk st) = (Some (Wrapped ''error copying files: '' e), d2)"
    using assms(1,2) f by (simp add: CopyAll_entries run_entries_append)
  show ?thesis using c assms(6) by (simp add: Let_def)
qed

theorem resync_aborts_on_failed_copy_witness:
  "(CopyAll dev_manager good_sources file_at_public =
      (Some (Wrapped ''error copying files: '' ENOTDIR), file_at_public) \<and>
    watch_loop dev_manager ok_env [EventMsg write_event good_sources] (idle_on file_at_public) =
      Running \<lparr>disk = file_at_public, watching = {},
               logged = [Wrapped ''error copying files: '' ENOTDIR]\<rparr>) \<and>
   (CopyAll dev_manager broken_sources Map.empty =
      (Some (Wrapped ''error copying files: '' EACCES), (Map.empty([''public''] \<mapsto> Dir))) \<and>
    watch_loop dev_manager ok_env [EventMsg write_event broken_sources] (idle_on Map.empty) =
      Running \<lparr>disk = (Map.empty([''public''] \<mapsto> Dir)), watching = {},
               logged = [Wrapped ''error copying files: '' EACCES]\<rparr>) \<and>
   (CopyAll dev_manager good_sources dir_at_a =
      (Some (Wrapped ''error copying files: '' EISDIR), dir_at_a) \<and>
    watch_loop dev_manager ok_env [EventMsg write_event good_sources] (idle_on dir_at_a) =
      Running \<lparr>disk = dir_at_a, watching = {},
               logged = [Wrapped ''error copying files: '' EISDIR]\<rparr>) \<and>
   (CopyAll dev_manager half_read_sources Map.empty =
      (Some (Wrapped ''error copying files: '' EIO),
       (Map.empty([''public''] \<mapsto> Dir, [''public'', ''a.js''] \<mapsto> File ''A''))) \<and>
    watch_loop dev_manager ok_env [EventMsg write_event half_read_sources] (idle_on Map.empty) =
      Running \<lparr>disk = (Map.empty([''public''] \<mapsto> Dir, [''public'', ''a.js''] \<mapsto> File ''A'')),
               watching = {},
               logged = [Wrapped ''error copying files: '' EIO]\<rparr>)"
proof -
  note ev = write_event_has
  have st: "disk (idle_on d) = d" "watching (idle_on d) = {}" "logged (idle_on d) = []" for d
    by (simp_all add: idle_on_def)
  have nc: "\<not> Has write_event Create" by (simp add: Has_def write_event_def)
  have e: "entries (inputFolder dev_manager) (SDir [(''a.js'', SFile fa), (''b.js'', SFile fb)]) =
     [([''assets''], SDir [(''a.js'', SFile fa), (''b.js'', SFile fb)], None)] @
     (inputFolder dev_manager @ [''a.js''], SFile fa, None) # [([''assets'', ''b.js''], SFile fb, None)]"
    for fa fb unfolding dev_folders by (rule entries_two_files)
  have r: "run_entries (copyFn dev_manager)
      [([''assets''], SDir [(''a.js'', SFile fa), (''b.js'', SFile fb)], None)] (disk (idle_on d)) = (None, d)"
    for fa fb d unfolding st by (rule run_dir_entry)
  have df: "[''public''] = outputFolder dev_manager @ Dir_of [''a.js'']" by (simp add: dest_a)
  have dp: "[''public'', ''a.js''] = Join1 [''public''] (Base [''a.js''])" by (simp add: dest_a)
  have c1: "(MkdirAll [''public''] file_at_public = Inl ENOTDIR \<and> file_at_public = file_at_public) \<or>
         (\<exists>dm. MkdirAll [''public''] file_at_public = Inr dm \<and> os_Open (SFile (Readable ''AA'')) = Inl ENOTDIR \<and> file_at_public = dm) \<or>
         (\<exists>dm sf. MkdirAll [''public''] file_at_public = Inr dm \<and> os_Open (SFile (Readable ''AA'')) = Inr sf \<and>
               os_Create [''public'', ''a.js''] dm = Inl ENOTDIR \<and> file_at_public = dm) \<or>
         (\<exists>dm sf dc. MkdirAll [''public''] file_at_public = Inr dm \<and> os_Open (SFile (Readable ''AA'')) = Inr sf \<and>
               os_Create [''public'', ''a.js''] dm = Inr dc \<and> io_Copy [''public'', ''a.js''] sf dc = (Some ENOTDIR, file_at_public))"
    by (simp add: MkdirAll_public)
  have c2: "(MkdirAll [''public''] Map.empty = Inl EACCES \<and> (Map.empty([''public''] \<mapsto> Dir)) = Map.empty) \<or>
         (\<exists>dm. MkdirAll [''public''] Map.empty = Inr dm \<and> os_Open (SFile (Unopenable EACCES)) = Inl EACCES \<and> (Map.empty([''public''] \<mapsto> Dir)) = dm) \<or>
         (\<exists>dm sf. MkdirAll [''public''] Map.empty = Inr dm \<and> os_Open (SFile (Unopenable EACCES)) = Inr sf \<and>
               os_Create [''public'', ''a.js''] dm = Inl EACCES \<and> (Map.empty([''public''] \<mapsto> Dir)) = dm) \<or>
         (\<exists>dm sf dc. MkdirAll [''public''] Map.empty = Inr dm \<and> os_Open (SFile (Unopenable EACCES)) = Inr sf \<and>
               os_Create [''public'', ''a.js''] dm = Inr dc \<and> io_Copy [''public'', ''a.js''] sf dc = (Some EACCES, (Map.empty([''public''] \<mapsto> Dir))))"
    by (simp add: MkdirAll_public)
  have cr3: "os_Create [''public'', ''a.js''] dir_at_a = Inl EISDIR"
    by (simp add: os_Create_def stat_def dir_at_a_def)
  have c3: "(MkdirAll [''public''] dir_at_a = Inl EISDIR \<and> dir_at_a = dir_at_a) \<or>
         (\<exists>dm. MkdirAll [''public''] dir_at_a = Inr dm \<and> os_Open (SFile (Readable ''AA'')) = Inl EISDIR \<and> dir_at_a = dm) \<or>
         (\<exists>dm sf. MkdirAll [''public''] dir_at_a = Inr dm \<and> os_Open (SFile (Readable ''AA'')) = Inr sf \<and>
               os_Create [''public'', ''a.js''] dm = Inl EISDIR \<and> dir_at_a = dm) \<or>
         (\<exists>dm sf dc. MkdirAll [''public''] dir_at_a = Inr dm \<and> os_Open (SFile (Readable ''AA'')) = Inr sf \<and>
               os_Create [''public'', ''a.js''] dm = Inr dc \<and> io_Copy [''public'', ''a.js''] sf dc = (Some EISDIR, dir_at_a))"
    by (simp add: MkdirAll_public cr3)
  have cr4: "os_Create [''public'', ''a.js''] (Map.empty([''public''] \<mapsto> Dir)) =
      Inr (Map.empty([''public''] \<mapsto> Dir, [''public'', ''a.js''] \<mapsto> File []))"
    by (simp add: os_Create_def stat_def)
  have c4: "(MkdirAll [''public''] Map.empty = Inl EIO \<and> (Map.empty([''public''] \<mapsto> Dir, [''public'', ''a.js''] \<mapsto> File ''A'')) = Map.empty) \<or>
         (\<exists>dm. MkdirAll [''public''] Map.empty = Inr dm \<and> os_Open (SFile (ReadFails ''A'' EIO)) = Inl EIO \<and> (Map.empty([''public''] \<mapsto> Dir, [''public'', ''a.js''] \<mapsto> File ''A'')) = dm) \<or>
         (\<exists>dm sf. MkdirAll [''public''] Map.empty = Inr dm \<and> os_Open (SFile (ReadFails ''A'' EIO)) = Inr sf \<and>
               os_Create [''public'', ''a.js''] dm = Inl EIO \<and> (Map.empty([''public''] \<mapsto> Dir, [''public'', ''a.js''] \<mapsto> File ''A'')) = dm) \<or>
         (\<exists>dm sf dc. MkdirAll [''public''] Map.empty = Inr dm \<and> os_Open (SFile (ReadFails ''A'' EIO)) = Inr sf \<and>
               os_Create [''public'', ''a.js''] dm = Inr dc \<and> io_Copy [''public'', ''a.js''] sf dc =
                 (Some EIO, (Map.empty([''public''] \<mapsto> Dir, [''public'', ''a.js''] \<mapsto> File ''A''))))"
    by (simp add: MkdirAll_public cr4)
  have w1: "CopyAll dev_manager good_sources file_at_public =
      (Some (Wrapped ''error copying files: '' ENOTDIR), file_at_public) \<and>
    watch_loop dev_manager ok_env [EventMsg write_event good_sources] (idle_on file_at_public) =
      Running \<lparr>disk = file_at_public, watching = {},
               logged = [Wrapped ''error copying files: '' ENOTDIR]\<rparr>"
    using resync_aborts_on_failed_copy[where E = ok_env and later = "[]",
        OF e[of "Readable ''AA''" "Readable ''B''"]
          r[of "Readable ''AA''" "Readable ''B''" file_at_public] df dp c1 ev]
    by (simp add: st nc good_sources_def)
  have w2: "CopyAll dev_manager broken_sources Map.empty =
      (Some (Wrapped ''error copying files: '' EACCES), (Map.empty([''public''] \<mapsto> Dir))) \<and>
    watch_loop dev_manager ok_env [EventMsg write_event broken_sources] (idle_on Map.empty) =
      Running \<lparr>disk = (Map.empty([''public''] \<mapsto> Dir)), watching = {},
               logged = [Wrapped ''error copying files: '' EACCES]\<rparr>"
    using resync_aborts_on_failed_copy[where E = ok_env and later = "[]",
        OF e[of "Unopenable EACCES" "Readable ''B''"]
          r[of "Unopenable EACCES" "Readable ''B''" Map.empty] df dp c2 ev]
    by (simp add: st nc broken_sources_def)
  have w3: "CopyAll dev_manager good_sources dir_at_a =
      (Some (Wrapped ''error copying files: '' EISDIR), dir_at_a) \<and>
    watch_loop dev_manager ok_env [EventMsg write_event good_sources] (idle_on dir_at_a) =
      Running \<lparr>disk = dir_at_a, watching = {},
               logged = [Wrapped ''error copying files: '' EISDIR]\<rparr>"
    using resync_aborts_on_failed_copy[where E = ok_env and later = "[]",
        OF e[of "Readable ''AA''" "Readable ''B''"]
          r[of "Readable ''AA''" "Readable ''B''" dir_at_a] df dp c3 ev]
    by (simp add: st nc good_sources_def)
  have w4: "CopyAll dev_manager half_read_sources Map.empty =
      (Some (Wrapped ''error copying files: '' EIO),
       (Map.empty([''public''] \<mapsto> Dir, [''public'', ''a.js''] \<mapsto> File ''A''))) \<and>
    watch_loop dev_manager ok_env [EventMsg write_event half_read_sources] (idle_on Map.empty) =
      Running \<lparr>disk = (Map.empty([''public''] \<mapsto> Dir, [''public'', ''a.js''] \<mapsto> File ''A'')),
               watching = {},
               logged = [Wrapped ''error copying files: '' EIO]\<rparr>"
    using resync_aborts_on_failed_copy[where E = ok_env and later = "[]",
        OF e[of "ReadFails ''A'' EIO" "Readable ''B''"]
          r[of "ReadFails ''A'' EIO" "Readable ''B''" Map.empty] df dp c4 ev]
    by (simp add: st nc half_read_sources_def)
  from w1 w2 w3 w4 show ?thesis by (intro conjI) (erule conjunct1 conjunct2)+
qed

subsection \<open>\<open>Watch\<close>\<close>

lemma addFn_result:
  "addFn E p info err w = (case Add_err E p of Some e \<Rightarrow> (Some e, w) | None \<Rightarrow> (None, insert p w))"
  by (simp add: addFn_def watcher_Add_def)

lemma run_add_paths:
  "run_entries (addFn E) xs w = (None, w') \<Longrightarrow> w' = w \<union> fst ` set xs"
proof (induction xs arbitrary: w)
  case Nil thus ?case by simp
next
  case (Cons x xs)
  obtain p info err where x: "x = (p, info, err)" by (cases x)
  from Cons.prems x
  have "(case addFn E p info err w of (Some e, s') \<Rightarrow> (Some e, s')
         | (None, s') \<Rightarrow> run_entries (addFn E) xs s') = (None, w')" by simp
  hence "run_entries (addFn E) xs (insert p w) = (None, w')"
    by (cases "Add_err E p") (simp_all add: addFn_result[of E p info err w])
  from Cons.IH[OF this] show ?case using x by auto
qed

text \<open>
  The walk of \<open>Watch\<close> fails only through \<open>watcher.Add\<close>: where every path can be added,
  it returns no error, also on a tree with entries that cannot be read.
\<close>

lemma walk_add_never_fails:
  assumes "\<And>q. Add_err E q = None"
  shows "fst (walk (addFn E) p n w) = None"
proof -
  have a: "addFn E q info err v = (None, insert q v)" for q info err v
    by (simp add: addFn_result assms)
  have "fst (run_entries (addFn E) xs w) = None" for xs
  proof (induction xs arbitrary: w)
    case Nil show ?case by simp
  next
    case (Cons x xs)
    obtain q info err where x: "x = (q, info, err)" by (cases x)
    have "run_entries (addFn E) (x # xs) w = run_entries (addFn E) xs (insert q w)"
      unfolding x run_entries.simps a[of q info err w] by simp
    thus ?case using Cons.IH by simp
  qed
  thus ?thesis by (simp add: walk_entries)
qed

text \<open>
  Claim C9: the setup errors of \<open>Watch\<close> are fatal. When the watcher cannot be made,
  and when the walk that adds the paths to the watcher returns an error, \<open>Watch\<close>
  panics with that error wrapped; no message is handled, whatever messages there are,
  and the disk and the log are those that the first \<open>CopyAll\<close> left.
\<close>

theorem Watch_setup_errors_fatal:
  "(NewWatcher_err E = Some e \<longrightarrow>
      Watch m E src d msgs =
        Panicked (Wrapped ''error creating watcher: '' e) (snd (CopyAll m src d))
          (case fst (CopyAll m src d) of Some e' \<Rightarrow> [e'] | None \<Rightarrow> [])) \<and>
   (NewWatcher_err E = None \<and>
    walk (addFn E) (inputFolder m) src {} = (Some e, w) \<longrightarrow>
      Watch m E src d msgs =
        Panicked (Wrapped ''error adding files to watcher: '' e) (snd (CopyAll m src d))
          (case fst (CopyAll m src d) of Some e' \<Rightarrow> [e'] | None \<Rightarrow> []))"
  by (auto simp: Watch_def Let_def split: prod.splits)

theorem Watch_setup_errors_fatal_witness:
  "Watch dev_manager no_watcher_env new_sources Map.empty [EventMsg write_event new_sources] =
     Panicked (Wrapped ''error creating watcher: '' EACCES)
       (Map.empty([''public''] \<mapsto> Dir, [''public'', ''main.js''] \<mapsto> File ''NEW'')) [] \<and>
   Watch dev_manager no_add_env new_sources Map.empty [EventMsg write_event new_sources] =
     Panicked (Wrapped ''error adding files to watcher: '' ErrNotExist)
       (Map.empty([''public''] \<mapsto> Dir, [''public'', ''main.js''] \<mapsto> File ''NEW'')) []"
proof -
  have h1: "NewWatcher_err no_watcher_env = Some EACCES" by (simp add: no_watcher_env_def)
  have h2: "NewWatcher_err no_add_env = None \<and>
    walk (addFn no_add_env) (inputFolder dev_manager) new_sources {} =
      (Some ErrNotExist, {[''assets'']})"
    by (simp add: no_add_env_def dev_manager_def new_sources_def addFn_def watcher_Add_def)
  show ?thesis
    using h1 h2
      Watch_setup_errors_fatal[of no_watcher_env EACCES dev_manager new_sources Map.empty
        "[EventMsg write_event new_sources]" "{}"]
      Watch_setup_errors_fatal[of no_add_env ErrNotExist dev_manager new_sources Map.empty
        "[EventMsg write_event new_sources]" "{[''assets'']}"]
    by (simp add: CopyAll_new_sources)
qed

text \<open>
  Claim C10: an error of the first \<open>CopyAll\<close> of \<open>Watch\<close> is logged and nothing more.
  When the watcher can be made and every path can be added, the watch set holds every
  path of the input tree and the loop starts on the messages, on the disk that the
  failed \<open>CopyAll\<close> left, with the error as the only line of the log.
\<close>

theorem initial_CopyAll_error_not_fatal:
  assumes "CopyAll m src d = (Some e, d1)"
    and "NewWatcher_err E = None"
    and "walk (addFn E) (inputFolder m) src {} = (None, w)"
  shows "w = fst ` set (entries (inputFolder m) src) \<and>
         Watch m E src d msgs =
           Started (watch_loop m E msgs \<lparr>disk = d1, watching = w, logged = [e]\<rparr>)"
proof -
  have "w = {} \<union> fst ` set (entries (inputFolder m) src)"
    using assms(3) unfolding walk_entries by (rule run_add_paths)
  thus ?thesis using assms by (simp add: Watch_def)
qed

theorem initial_CopyAll_error_not_fatal_witness:
  "Watch dev_manager ok_env broken_sources Map.empty [] =
     Started (Running
       \<lparr>disk = (Map.empty([''public''] \<mapsto> Dir)),
        watching = {[''assets''], [''assets'', ''a.js''], [''assets'', ''b.js'']},
        logged = [Wrapped ''error copying files: '' EACCES]\<rparr>)"
proof -
  have h1: "CopyAll dev_manager broken_sources Map.empty =
      (Some (Wrapped ''error copying files: '' EACCES), (Map.empty([''public''] \<mapsto> Dir)))"
    using Rel_under[of "[''assets'']" "[''a.js'']"]
    by (simp add: CopyAll_def dev_manager_def broken_sources_def copyFn_def
        MkdirAll.simps Dir_of_def)
  have h2: "NewWatcher_err ok_env = None" by (simp add: ok_env_def)
  have h3: "walk (addFn ok_env) (inputFolder dev_manager) broken_sources {} =
      (None, {[''assets''], [''assets'', ''a.js''], [''assets'', ''b.js'']})"
    by (auto simp: ok_env_def dev_manager_def broken_sources_def addFn_def watcher_Add_def)
  show ?thesis
    using initial_CopyAll_error_not_fatal[OF h1 h2 h3, of "[]"] by simp
qed

subsection \<open>Path resolution\<close>

lemma normalize_four:
  "normalize_path ''main.js'' = ''main.js''"
  "normalize_path ''/main.js'' = ''main.js''"
  "normalize_path ''public/main.js'' = ''main.js''"
  "normalize_path ''/public/main.js'' = ''main.js''"
  by (simp_all add: normalize_path_def trim_prefix_def)

lemma idx_consistent_empty [simp]: "idx_consistent m h Map.empty"
  by (simp add: idx_consistent_def)

lemma resolve_hit:
  "idx (normalize_path p) = Some sp \<Longrightarrow> resolve m h idx p = (Inr sp, idx)"
  by (simp add: resolve_def)

lemma resolve_miss:
  "idx (normalize_path p) = None \<Longrightarrow>
   resolve m h idx p =
     (case ReadFile m (normalize_path p) of
        Inl e \<Rightarrow> (Inl ErrNotExist, idx)
      | Inr bs \<Rightarrow>
          (Inr (servingPathFor h (normalize_path p) bs),
           idx(normalize_path p \<mapsto> servingPathFor h (normalize_path p) bs)))"
  by (simp add: resolve_def Let_def split: sum.splits)

lemma resolve_fresh:
  assumes "idx_consistent m h idx"
  shows "fst (resolve m h idx p) = fst (resolve m h Map.empty p)"
proof (cases "idx (normalize_path p)")
  case None
  thus ?thesis by (simp add: resolve_miss split: sum.splits)
next
  case (Some sp)
  with assms obtain bs where "ReadFile m (normalize_path p) = Inr bs"
    "sp = servingPathFor h (normalize_path p) bs"
    unfolding idx_consistent_def by blast
  thus ?thesis using Some by (simp add: resolve_hit resolve_miss)
qed

lemma resolve_preserves:
  assumes "idx_consistent m h idx"
  shows "idx_consistent m h (snd (resolve m h idx p))"
proof (cases "idx (normalize_path p)")
  case (Some sp)
  thus ?thesis using assms by (simp add: resolve_hit)
next
  case None
  show ?thesis
  proof (cases "ReadFile m (normalize_path p)")
    case (Inl e)
    thus ?thesis using None assms by (simp add: resolve_miss)
  next
    case (Inr bs)
    hence "snd (resolve m h idx p) = idx(normalize_path p \<mapsto> servingPathFor h (normalize_path p) bs)"
      using None by (simp add: resolve_miss)
    thus ?thesis using assms Inr unfolding idx_consistent_def by auto
  qed
qed

lemma resolve_again:
  "resolve m h (snd (resolve m h idx p)) p = resolve m h idx p"
proof (cases "idx (normalize_path p)")
  case (Some sp)
  thus ?thesis by (simp add: resolve_hit)
next
  case None
  show ?thesis
  proof (cases "ReadFile m (normalize_path p)")
    case (Inl e)
    thus ?thesis using None by (simp add: resolve_miss)
  next
    case (Inr bs)
    let ?sp = "servingPathFor h (normalize_path p) bs"
    have 1: "resolve m h idx p = (Inr ?sp, idx(normalize_path p \<mapsto> ?sp))"
      using None Inr by (simp add: resolve_miss)
    have "resolve m h (idx(normalize_path p \<mapsto> ?sp)) p = (Inr ?sp, idx(normalize_path p \<mapsto> ?sp))"
      by (rule resolve_hit) simp
    thus ?thesis using 1 by simp
  qed
qed

lemma resolve_same_key:
  "normalize_path p = normalize_path q \<Longrightarrow> resolve m h idx p = resolve m h idx q"
  by (simp add: resolve_def)

lemma resolve_value:
  assumes "idx_consistent m h idx" and "fst (resolve m h idx p) = Inr sp"
  shows "\<exists>bs. ReadFile m (normalize_path p) = Inr bs \<and> sp = servingPathFor h (normalize_path p) bs"
proof -
  have e: "(Map.empty :: index) (normalize_path p) = None" by simp
  from assms have "fst (resolve m h Map.empty p) = Inr sp" by (simp only: resolve_fresh)
  thus ?thesis unfolding resolve_miss[OF e]
    by (cases "ReadFile m (normalize_path p)") simp_all
qed

lemma servingPathFor_public: "take 8 (servingPathFor h n bs) = ''/public/''"
  by (simp add: servingPathFor_def)

lemma dir_base: "dir_part n @ base_part n = n"
proof -
  have "rev (takeWhile (\<lambda>c. c \<noteq> CHR ''/'') (rev n) @ dropWhile (\<lambda>c. c \<noteq> CHR ''/'') (rev n)) = n"
    by (simp only: takeWhile_dropWhile_id rev_rev_ident)
  thus ?thesis by (simp only: dir_part_def base_part_def rev_append)
qed

lemma dir_part_slash: "dir_part n = [] \<or> last (dir_part n) = CHR ''/''"
proof -
  let ?d = "dropWhile (\<lambda>c. c \<noteq> CHR ''/'') (rev n)"
  show ?thesis
  proof (cases ?d)
    case Nil thus ?thesis by (simp add: dir_part_def)
  next
    case (Cons c cs)
    hence "c = CHR ''/''" using hd_dropWhile[of "\<lambda>c. c \<noteq> CHR ''/''" "rev n"] by auto
    thus ?thesis using Cons by (simp add: dir_part_def)
  qed
qed

lemma dir_token_inj:
  assumes eq: "d1 @ t1 = d2 @ t2"
    and d1: "d1 = [] \<or> last d1 = CHR ''/''" and d2: "d2 = [] \<or> last d2 = CHR ''/''"
    and t1: "CHR ''/'' \<notin> set t1" and t2: "CHR ''/'' \<notin> set t2"
  shows "d1 = d2"
proof -
  have tw: "takeWhile (\<lambda>c. c \<noteq> CHR ''/'') (rev t @ rev d) = rev t"
    if "CHR ''/'' \<notin> set t" "d = [] \<or> last d = CHR ''/''" for t d :: string
  proof (cases "d = []")
    case True with that show ?thesis by auto
  next
    case False
    with that have "hd (rev d) = CHR ''/''" by (simp add: hd_rev)
    moreover from False have "rev d \<noteq> []" by simp
    ultimately obtain r where "rev d = CHR ''/'' # r" by (cases "rev d") auto
    moreover have "takeWhile (\<lambda>c. c \<noteq> CHR ''/'') (rev t) = rev t"
      using that(1) by (auto simp: takeWhile_eq_all_conv)
    ultimately show ?thesis by (simp add: takeWhile_tail)
  qed
  from eq have "rev (d1 @ t1) = rev (d2 @ t2)" by (rule arg_cong)
  hence "rev t1 @ rev d1 = rev t2 @ rev d2" by (simp only: rev_append)
  hence "takeWhile (\<lambda>c. c \<noteq> CHR ''/'') (rev t1 @ rev d1) = takeWhile (\<lambda>c. c \<noteq> CHR ''/'') (rev t2 @ rev d2)"
    by (rule arg_cong)
  hence "rev t1 = rev t2" by (simp only: tw[OF t1 d1] tw[OF t2 d2])
  hence "t1 = t2" by (simp only: rev_is_rev_conv)
  with eq show ?thesis by (simp only: append_same_eq)
qed

lemma servingPathFor_inj_dir:
  assumes eq: "servingPathFor h n bs = servingPathFor h k bs'"
    and base: "base_part n = base_part k"
  shows "dir_part n @ h bs = dir_part k @ h bs'"
proof -
  from eq have "''/public/'' @ ((dir_part n @ h bs) @ (''-'' @ base_part k)) =
           ''/public/'' @ ((dir_part k @ h bs') @ (''-'' @ base_part k))"
    unfolding servingPathFor_def base by (simp only: append_assoc)
  hence "(dir_part n @ h bs) @ (''-'' @ base_part k) = (dir_part k @ h bs') @ (''-'' @ base_part k)"
    by (simp only: same_append_eq)
  thus ?thesis by (simp only: append_same_eq)
qed

text \<open>
  Claim C4: with the bundle unchanged, a second \<open>resolve\<close> of a path returns the
  ServingPath that the first returned; and on every index that is consistent with the
  bundle the answer is the one computed from the bytes on an empty index, as after a
  restart.
\<close>

theorem resolve_deterministic:
  "fst (resolve m h (snd (resolve m h idx p)) p) = fst (resolve m h idx p) \<and>
   (idx_consistent m h idx \<longrightarrow> fst (resolve m h idx p) = fst (resolve m h Map.empty p))"
proof (intro conjI impI)
  show "fst (resolve m h (snd (resolve m h idx p)) p) = fst (resolve m h idx p)"
    by (simp only: resolve_again)
next
  assume "idx_consistent m h idx"
  thus "fst (resolve m h idx p) = fst (resolve m h Map.empty p)" by (rule resolve_fresh)
qed

theorem resolve_deterministic_witness:
  "idx_consistent test_manager test_hash
     (snd (resolve test_manager test_hash Map.empty ''main.js'')) \<and>
   fst (resolve test_manager test_hash
     (snd (resolve test_manager test_hash Map.empty ''main.js'')) ''public/main.js'') =
     Inr ''/public/hAAA-main.js''"
proof -
  let ?idx = "snd (resolve test_manager test_hash Map.empty ''main.js'')"
  have h: "idx_consistent test_manager test_hash ?idx"
    by (rule resolve_preserves) simp
  have e: "(Map.empty :: index) (normalize_path ''public/main.js'') = None" by simp
  have v: "fst (resolve test_manager test_hash Map.empty ''public/main.js'') = Inr ''/public/hAAA-main.js''"
    unfolding resolve_miss[OF e]
    by (simp add: normalize_four ReadFile_def embedded_test servingPathFor_def
        dir_part_def base_part_def test_hash_def)
  show ?thesis
    using h v resolve_deterministic[of test_manager test_hash ?idx "''public/main.js''"]
    by simp
qed

text \<open>
  Claim C5: the four spellings of \<open>main.js\<close> resolve to the same result, on whatever
  consistent index each call finds, and every ServingPath that \<open>resolve\<close> returns
  starts with \<open>/public/\<close>.
\<close>

theorem resolve_normalizes:
  assumes "idx_consistent m h i1" and "idx_consistent m h i2"
    and "idx_consistent m h i3" and "idx_consistent m h i4"
  shows "fst (resolve m h i2 ''/main.js'') = fst (resolve m h i1 ''main.js'') \<and>
         fst (resolve m h i3 ''public/main.js'') = fst (resolve m h i1 ''main.js'') \<and>
         fst (resolve m h i4 ''/public/main.js'') = fst (resolve m h i1 ''main.js'') \<and>
         (\<forall>p sp. fst (resolve m h i1 p) = Inr sp \<longrightarrow> take 8 sp = ''/public/'')"
proof -
  have k: "resolve m h Map.empty q = resolve m h Map.empty ''main.js''"
    if "normalize_path q = ''main.js''" for q
    by (rule resolve_same_key) (simp add: that normalize_four)
  have f: "fst (resolve m h i q) = fst (resolve m h Map.empty ''main.js'')"
    if "idx_consistent m h i" "normalize_path q = ''main.js''" for i q
    using resolve_fresh[OF that(1), of q] k[OF that(2)] by simp
  have pub: "take 8 sp = ''/public/''" if "fst (resolve m h i1 p) = Inr sp" for p sp
    using resolve_value[OF assms(1) that] servingPathFor_public by blast
  show ?thesis
    using f[OF assms(1) normalize_four(1)] f[OF assms(2) normalize_four(2)]
      f[OF assms(3) normalize_four(3)] f[OF assms(4) normalize_four(4)] pub
    by simp
qed

theorem resolve_normalizes_witness:
  "fst (resolve test_manager test_hash Map.empty ''main.js'') = Inr ''/public/hAAA-main.js'' \<and>
   fst (resolve test_manager test_hash Map.empty ''/main.js'') = Inr ''/public/hAAA-main.js'' \<and>
   fst (resolve test_manager test_hash Map.empty ''public/main.js'') = Inr ''/public/hAAA-main.js'' \<and>
   fst (resolve test_manager test_hash Map.empty ''/public/main.js'') = Inr ''/public/hAAA-main.js'' \<and>
   take 8 ''/public/hAAA-main.js'' = ''/public/''"
proof -
  have c: "idx_consistent test_manager test_hash Map.empty" by simp
  have e: "(Map.empty :: index) (normalize_path ''main.js'') = None" by simp
  have v: "fst (resolve test_manager test_hash Map.empty ''main.js'') = Inr ''/public/hAAA-main.js''"
    unfolding resolve_miss[OF e]
    by (simp add: normalize_four ReadFile_def embedded_test servingPathFor_def
        dir_part_def base_part_def test_hash_def)
  show ?thesis
    using v resolve_normalizes[OF c c c c] by simp
qed

text \<open>
  Claim C6: two paths with the same base name in different directories resolve to
  different ServingPaths, when the bundle holds the same bytes at both and, for any
  bytes, when no token contains a slash. With the same bytes the two ServingPaths are
  built from the same bytes, hence embed the same token, and differ in the directory.
\<close>

theorem resolve_respects_folders:
  assumes "idx_consistent m h i1" and "idx_consistent m h i2"
    and "base_part (normalize_path p) = base_part (normalize_path q)"
    and "dir_part (normalize_path p) \<noteq> dir_part (normalize_path q)"
    and "fst (resolve m h i1 p) = Inr a" and "fst (resolve m h i2 q) = Inr b"
    and "ReadFile m (normalize_path p) = ReadFile m (normalize_path q) \<or>
         (\<forall>bs. CHR ''/'' \<notin> set (h bs))"
  shows "a \<noteq> b \<and>
         (ReadFile m (normalize_path p) = ReadFile m (normalize_path q) \<longrightarrow>
            (\<exists>bs. a = servingPathFor h (normalize_path p) bs \<and>
                  b = servingPathFor h (normalize_path q) bs))"
proof -
  let ?n = "normalize_path p" and ?k = "normalize_path q"
  from resolve_value[OF assms(1) assms(5)] obtain bs where
    rp: "ReadFile m ?n = Inr bs" and a: "a = servingPathFor h ?n bs" by blast
  from resolve_value[OF assms(2) assms(6)] obtain bs' where
    rq: "ReadFile m ?k = Inr bs'" and b: "b = servingPathFor h ?k bs'" by blast
  have same_bytes: "bs' = bs" if "ReadFile m ?n = ReadFile m ?k"
    using that rp rq by simp
  have ne: "a \<noteq> b"
  proof
    assume "a = b"
    hence "servingPathFor h ?n bs = servingPathFor h ?k bs'" unfolding a b .
    hence eq: "dir_part ?n @ h bs = dir_part ?k @ h bs'"
      using assms(3) by (rule servingPathFor_inj_dir)
    from assms(7) have "dir_part ?n = dir_part ?k"
    proof
      assume "ReadFile m ?n = ReadFile m ?k"
      hence "bs' = bs" by (rule same_bytes)
      with eq show ?thesis by (simp only: append_same_eq)
    next
      assume sf: "\<forall>bs. CHR ''/'' \<notin> set (h bs)"
      hence t1: "CHR ''/'' \<notin> set (h bs)" and t2: "CHR ''/'' \<notin> set (h bs')" by blast+
      show ?thesis
        using eq dir_part_slash[of ?n] dir_part_slash[of ?k] t1 t2 by (rule dir_token_inj)
    qed
    with assms(4) show False by (rule notE)
  qed
  have same: "\<exists>bs. a = servingPathFor h ?n bs \<and> b = servingPathFor h ?k bs"
    if "ReadFile m ?n = ReadFile m ?k"
  proof -
    from that have "bs' = bs" by (rule same_bytes)
    with a b have "a = servingPathFor h ?n bs \<and> b = servingPathFor h ?k bs" by (simp only: simp_thms)
    thus ?thesis by (rule exI)
  qed
  from ne same show ?thesis by (intro conjI impI)
qed

theorem resolve_respects_folders_witness:
  "fst (resolve test_manager test_hash Map.empty ''public/main.js'') = Inr ''/public/hAAA-main.js'' \<and>
   fst (resolve test_manager test_hash Map.empty ''public/other/main.js'') = Inr ''/public/other/hAAA-main.js'' \<and>
   ''/public/hAAA-main.js'' \<noteq> ''/public/other/hAAA-main.js''"
proof -
  have c: "idx_consistent test_manager test_hash Map.empty" by simp
  have n1: "normalize_path ''public/main.js'' = ''main.js''" by (rule normalize_four)
  have n2: "normalize_path ''public/other/main.js'' = ''other/main.js''"
    by (simp add: normalize_path_def trim_prefix_def)
  have h3: "base_part (normalize_path ''public/main.js'') = base_part (normalize_path ''public/other/main.js'')"
    unfolding n1 n2 by (simp add: base_part_def)
  have h4: "dir_part (normalize_path ''public/main.js'') \<noteq> dir_part (normalize_path ''public/other/main.js'')"
    unfolding n1 n2 by (simp add: dir_part_def)
  have e1: "(Map.empty :: index) (normalize_path ''public/main.js'') = None" by simp
  have e2: "(Map.empty :: index) (normalize_path ''public/other/main.js'') = None" by simp
  have h5: "fst (resolve test_manager test_hash Map.empty ''public/main.js'') = Inr ''/public/hAAA-main.js''"
    unfolding resolve_miss[OF e1] n1
    by (simp add: ReadFile_def embedded_test servingPathFor_def
        dir_part_def base_part_def test_hash_def)
  have h6: "fst (resolve test_manager test_hash Map.empty ''public/other/main.js'') = Inr ''/public/other/hAAA-main.js''"
    unfolding resolve_miss[OF e2] n2
    by (simp add: ReadFile_def embedded_test servingPathFor_def
        dir_part_def base_part_def test_hash_def)
  have h7: "ReadFile test_manager (normalize_path ''public/main.js'') =
            ReadFile test_manager (normalize_path ''public/other/main.js'') \<or>
         (\<forall>bs. CHR ''/'' \<notin> set (test_hash bs))"
    unfolding n1 n2 by (simp add: ReadFile_def embedded_test)
  show ?thesis
    using h5 h6 resolve_respects_folders[OF c c h3 h4 h5 h6 h7] by simp
qed

end
